theory Spec2Isabelle
  imports Complex_Main "HOL-Library.AList"
begin

section \<open>The VF2Layout pass (qiskit/transpiler/passes/layout/vf2_layout.py)\<close>

text \<open>
  A shallow embedding of the class \<open>VF2Layout\<close> and of its method \<open>run\<close>. The pass
  instance is a record that \<open>run\<close> takes and returns updated; every \<open>raise\<close> of the
  source (and every lookup that can raise) is a branch returning \<open>Inl\<close>. The helpers of
  \<open>vf2_utils\<close>, \<open>Layout.add_register\<close>, the matching engine \<open>rustworkx.vf2_mapping\<close>
  and the wall clock are not part of the file: they are the fields of the record
  \<open>env\<close>, which \<open>run\<close> takes as a parameter.
\<close>

subsection \<open>Data\<close>

datatype VF2LayoutStopReason = SOLUTION_FOUND | NO_SOLUTION_FOUND | MORE_THAN_2Q

datatype error = TranspilerError | KeyError | IndexError | TypeError | UnboundLocalError

text \<open>A logical qubit is an opaque hashable object; a natural number identifies it.\<close>

type_synonym qubit = nat

text \<open>
  A rustworkx graph, as far as \<open>run\<close> reads it: \<open>len(g)\<close> is \<open>num_nodes\<close>,
  \<open>g.edge_list()\<close> is \<open>edge_list\<close>, and \<open>is_directed\<close> tells a \<open>PyDiGraph\<close> from
  a \<open>PyGraph\<close>.
\<close>

record pygraph =
  is_directed :: bool
  num_nodes :: nat
  edge_list :: "(nat \<times> nat) list"

record CouplingMap =
  graph :: pygraph

text \<open>
  The circuit: the operand qubits of each operation node, and the declared registers
  (\<open>dag.qregs\<close>, a dictionary in insertion order).
\<close>

record DAGCircuit =
  op_nodes :: "qubit list list"
  qregs :: "(string \<times> qubit list) list"

text \<open>
  A Layout is the dictionary from logical qubit to physical index, in insertion order.
  Calibration data and the averaged error map are tables from physical pairs to a
  number; \<open>run\<close> only passes them on.
\<close>

type_synonym Layout = "(qubit \<times> nat) list"
type_synonym ErrorMap = "((nat \<times> nat) \<times> real) list"
type_synonym BackendProperties = "((nat \<times> nat) \<times> real) list"

record Target =
  build_coupling_map :: CouplingMap
  target_errors :: "((nat \<times> nat) \<times> real) list"

text \<open>The two keys of the property set that the pass writes.\<close>

record PropertySet =
  layout :: "Layout option"
  VF2Layout_stop_reason :: "VF2LayoutStopReason option"

record VF2Layout =
  target :: "Target option"
  coupling_map :: "CouplingMap option"
  properties :: "BackendProperties option"
  strict_direction :: bool
  seed :: "int option"
  call_limit :: "int option"
  time_limit :: "real option"
  max_trials :: "int option"
  avg_error_map :: "ErrorMap option"
  property_set :: PropertySet

text \<open>
  The collaborators. \<open>vf2_mapping\<close> gives the engine's stream of candidates, each the
  list \<open>mapping.items()\<close> of pairs (coupling-graph node, interaction-graph node).
  \<open>time_time k\<close> is the reading of the \<open>k\<close>-th call of \<open>time.time()\<close> within one
  invocation (call 0 sets \<open>start_time\<close>).
\<close>

record env =
  build_average_error_map ::
    "Target option \<Rightarrow> BackendProperties option \<Rightarrow> CouplingMap \<Rightarrow> ErrorMap option"
  build_interaction_graph ::
    "DAGCircuit \<Rightarrow> bool \<Rightarrow> (pygraph \<times> (qubit \<rightharpoonup> nat) \<times> (nat \<rightharpoonup> qubit)) option"
  shuffle_coupling_graph :: "CouplingMap \<Rightarrow> int option \<Rightarrow> bool \<Rightarrow> pygraph \<times> nat list"
  score_layout ::
    "ErrorMap option \<Rightarrow> Layout \<Rightarrow> (qubit \<rightharpoonup> nat) \<Rightarrow> (nat \<rightharpoonup> qubit) \<Rightarrow> pygraph \<Rightarrow> bool \<Rightarrow> real"
  vf2_mapping :: "pygraph \<Rightarrow> pygraph \<Rightarrow> int option \<Rightarrow> (nat \<times> nat) list list"
  add_register :: "Layout \<Rightarrow> qubit list \<Rightarrow> Layout"
  time_time :: "nat \<Rightarrow> real"

subsection \<open>The constructor\<close>

definition init ::
  "CouplingMap option \<Rightarrow> bool \<Rightarrow> int option \<Rightarrow> int option \<Rightarrow> real option \<Rightarrow>
   BackendProperties option \<Rightarrow> int option \<Rightarrow> Target option \<Rightarrow> PropertySet \<Rightarrow> VF2Layout" where
  "init cm sd sd0 cl tlim props mt tg ps =
     \<lparr>target = tg,
      coupling_map = (case tg of Some t \<Rightarrow> Some (build_coupling_map t) | None \<Rightarrow> cm),
      properties = props, strict_direction = sd, seed = sd0, call_limit = cl,
      time_limit = tlim, max_trials = mt, avg_error_map = None, property_set = ps\<rparr>"

subsection \<open>The body of \<open>run\<close>\<close>

text \<open>
  Line 148-150: the dictionary comprehension
  \<open>{reverse_im_graph_node_map[im_i]: cm_nodes[cm_i] for cm_i, im_i in mapping.items()}\<close>.
  The key is evaluated before the value; a later pair with the same key overwrites the
  value and keeps the key's place.
\<close>

fun layout_dict :: "(nat \<rightharpoonup> qubit) \<Rightarrow> nat list \<Rightarrow> (nat \<times> nat) list \<Rightarrow> Layout \<Rightarrow> error + Layout" where
  "layout_dict rnm cmn [] acc = Inr acc"
| "layout_dict rnm cmn ((cm_i, im_i) # rest) acc =
     (case rnm im_i of
        None \<Rightarrow> Inl KeyError
      | Some q \<Rightarrow>
          if cm_i < length cmn
          then layout_dict rnm cmn rest (AList.update q (cmn ! cm_i) acc)
          else Inl IndexError)"

text \<open>
  The local variables of \<open>run\<close> that the loop reads, and those it writes.
  \<open>stop_reason\<close> is unbound until the first iteration. \<open>score_calls\<close> is not a
  variable of the source: it counts the calls of \<open>vf2_utils.score_layout\<close>.
\<close>

record run_locals =
  im_graph :: pygraph
  im_graph_node_map :: "qubit \<rightharpoonup> nat"
  reverse_im_graph_node_map :: "nat \<rightharpoonup> qubit"
  cm_graph :: pygraph
  cm_nodes :: "nat list"
  start_time :: real

record search_state =
  chosen_layout :: "Layout option"
  chosen_layout_score :: "real option"
  trials :: nat
  stop_reason :: "VF2LayoutStopReason option"
  score_calls :: nat

definition search_init :: search_state where
  "search_init =
     \<lparr>chosen_layout = None, chosen_layout_score = None, trials = 0, stop_reason = None,
      score_calls = 0\<rparr>"

text \<open>
  Lines 166-178: the candidate replaces the retained layout when there is none yet, or
  when its score is strictly lower. Comparing with a score that is \<open>None\<close> raises.
\<close>

definition retain :: "search_state \<Rightarrow> Layout \<Rightarrow> real \<Rightarrow> error + search_state" where
  "retain st lay layout_score =
     (case chosen_layout st of
        None \<Rightarrow> Inr (st\<lparr>chosen_layout := Some lay, chosen_layout_score := Some layout_score\<rparr>)
      | Some _ \<Rightarrow>
          (case chosen_layout_score st of
             None \<Rightarrow> Inl TypeError
           | Some best \<Rightarrow>
               if layout_score < best
               then Inr (st\<lparr>chosen_layout := Some lay, chosen_layout_score := Some layout_score\<rparr>)
               else Inr st))"

text \<open>
  Line 179: \<open>self.max_trials is not None and self.max_trials > 0 and trials >= self.max_trials\<close>.
  Lines 182-183: \<open>self.time_limit is not None and elapsed_time >= self.time_limit\<close>, where
  \<open>elapsed_time\<close> is the next clock reading minus \<open>start_time\<close>; an iteration that gets
  there in trial \<open>t\<close> makes call number \<open>t\<close> of the clock.
\<close>

definition max_trials_reached :: "VF2Layout \<Rightarrow> search_state \<Rightarrow> bool" where
  "max_trials_reached self st =
     (case max_trials self of None \<Rightarrow> False | Some mt \<Rightarrow> mt > 0 \<and> int (trials st) \<ge> mt)"

definition time_limit_reached :: "env \<Rightarrow> VF2Layout \<Rightarrow> run_locals \<Rightarrow> search_state \<Rightarrow> bool" where
  "time_limit_reached e self lv st =
     (case time_limit self of
        None \<Rightarrow> False
      | Some limit \<Rightarrow> time_time e (trials st) - start_time lv \<ge> limit)"

text \<open>Lines 157-164: the call of the scorer on a candidate layout.\<close>

definition layout_score_of :: "env \<Rightarrow> VF2Layout \<Rightarrow> run_locals \<Rightarrow> Layout \<Rightarrow> real" where
  "layout_score_of e self lv lay =
     score_layout e (avg_error_map self) lay (im_graph_node_map lv)
       (reverse_im_graph_node_map lv) (im_graph lv) (strict_direction self)"

text \<open>Lines 148-150 on one candidate of the stream.\<close>

definition candidate_layout :: "run_locals \<Rightarrow> (nat \<times> nat) list \<Rightarrow> error + Layout" where
  "candidate_layout lv m = layout_dict (reverse_im_graph_node_map lv) (cm_nodes lv) m []"

text \<open>Lines 144-189: the loop over the engine's stream.\<close>

fun search :: "env \<Rightarrow> VF2Layout \<Rightarrow> run_locals \<Rightarrow> search_state \<Rightarrow> (nat \<times> nat) list list \<Rightarrow>
    error + search_state" where
  "search e self lv st [] = Inr st"
| "search e self lv st (mapping # rest) =
     (let st1 = st\<lparr>trials := trials st + 1, stop_reason := Some SOLUTION_FOUND\<rparr> in
      case candidate_layout lv mapping of
        Inl err \<Rightarrow> Inl err
      | Inr lay \<Rightarrow>
          if num_nodes (cm_graph lv) = num_nodes (im_graph lv)
          then Inr (st1\<lparr>chosen_layout := Some lay\<rparr>)
          else
            (case retain (st1\<lparr>score_calls := score_calls st1 + 1\<rparr>) lay
                    (layout_score_of e self lv lay) of
               Inl err \<Rightarrow> Inl err
             | Inr st2 \<Rightarrow>
                 if max_trials_reached self st2 then Inr st2
                 else if time_limit_reached e self lv st2 then Inr st2
                 else search e self lv st2 rest))"

text \<open>Lines 126-129: the default trial limit, stored in the instance.\<close>

definition default_max_trials :: "VF2Layout \<Rightarrow> pygraph \<Rightarrow> CouplingMap \<Rightarrow> VF2Layout" where
  "default_max_trials self img cm =
     (if max_trials self = None \<and> call_limit self = None \<and> time_limit self = None
      then self\<lparr>max_trials :=
             Some (max (int (length (edge_list img))) (int (length (edge_list (graph cm)))) + 15)\<rparr>
      else self)"

text \<open>Lines 190-197: what is written to the property set after the loop.\<close>

definition publish :: "env \<Rightarrow> VF2Layout \<Rightarrow> DAGCircuit \<Rightarrow> search_state \<Rightarrow> error + VF2Layout" where
  "publish e self dag st =
     (case chosen_layout st of
        None \<Rightarrow>
          Inr (self\<lparr>property_set :=
                 (property_set self)\<lparr>VF2Layout_stop_reason := Some NO_SOLUTION_FOUND\<rparr>\<rparr>)
      | Some lay \<Rightarrow>
          (case stop_reason st of
             None \<Rightarrow> Inl UnboundLocalError
           | Some r \<Rightarrow>
               Inr (self\<lparr>property_set :=
                      (property_set self)
                        \<lparr>layout := Some (foldl (add_register e) lay (map snd (qregs dag))),
                         VF2Layout_stop_reason := Some r\<rparr>\<rparr>)))"

text \<open>Lines 109-112: the error map is built when the instance holds none.\<close>

definition cache_error_map :: "env \<Rightarrow> VF2Layout \<Rightarrow> CouplingMap \<Rightarrow> VF2Layout" where
  "cache_error_map e self cm =
     (if avg_error_map self = None
      then self\<lparr>avg_error_map := build_average_error_map e (target self) (properties self) cm\<rparr>
      else self)"

text \<open>Lines 118-143: the locals that the loop starts from.\<close>

definition make_locals ::
  "env \<Rightarrow> VF2Layout \<Rightarrow> CouplingMap \<Rightarrow> pygraph \<times> (qubit \<rightharpoonup> nat) \<times> (nat \<rightharpoonup> qubit) \<Rightarrow> run_locals" where
  "make_locals e self cm result =
     (case result of (img, nm, rnm) \<Rightarrow>
        (case shuffle_coupling_graph e cm (seed self) (strict_direction self) of (cmg, cmn) \<Rightarrow>
           \<lparr>im_graph = img, im_graph_node_map = nm, reverse_im_graph_node_map = rnm,
            cm_graph = cmg, cm_nodes = cmn, start_time = time_time e 0\<rparr>))"

text \<open>The candidates that the engine is asked for (lines 132-139).\<close>

definition engine_stream :: "env \<Rightarrow> VF2Layout \<Rightarrow> run_locals \<Rightarrow> (nat \<times> nat) list list" where
  "engine_stream e self lv = vf2_mapping e (cm_graph lv) (im_graph lv) (call_limit self)"

text \<open>Lines 118-197: everything after the interaction graph has been built.\<close>

definition search_phase ::
  "env \<Rightarrow> VF2Layout \<Rightarrow> CouplingMap \<Rightarrow> DAGCircuit \<Rightarrow>
   pygraph \<times> (qubit \<rightharpoonup> nat) \<times> (nat \<rightharpoonup> qubit) \<Rightarrow> error + VF2Layout" where
  "search_phase e self1 cm dag result =
     (let lv = make_locals e self1 cm result;
          self2 = default_max_trials self1 (im_graph lv) cm
      in case search e self2 lv search_init (engine_stream e self2 lv) of
           Inl err \<Rightarrow> Inl err
         | Inr st \<Rightarrow> publish e self2 dag st)"

definition run :: "env \<Rightarrow> VF2Layout \<Rightarrow> DAGCircuit \<Rightarrow> error + VF2Layout" where
  "run e self dag =
     (case coupling_map self of
        None \<Rightarrow> Inl TranspilerError
      | Some cm \<Rightarrow>
          (let self1 = cache_error_map e self cm in
           case build_interaction_graph e dag (strict_direction self1) of
             None \<Rightarrow>
               Inr (self1\<lparr>property_set :=
                      (property_set self1)\<lparr>VF2Layout_stop_reason := Some MORE_THAN_2Q\<rparr>\<rparr>)
           | Some result \<Rightarrow> search_phase e self1 cm dag result))"

subsection \<open>Helpers that are not in the file, from their description\<close>

text \<open>
  The interaction graph with its two node maps, as \<open>build_interaction_graph\<close> returns
  them, and the query \<open>g.has_edge(a, b)\<close> of a graph, which looks at the direction iff
  the graph is directed.
\<close>

type_synonym ig_result = "pygraph \<times> (qubit \<rightharpoonup> nat) \<times> (nat \<rightharpoonup> qubit)"

definition has_edge :: "pygraph \<Rightarrow> nat \<Rightarrow> nat \<Rightarrow> bool" where
  "has_edge g a b =
     ((a, b) \<in> set (edge_list g) \<or> (\<not> is_directed g \<and> (b, a) \<in> set (edge_list g)))"

text \<open>
  Modelled from the spec: \<open>vf2_utils.build_interaction_graph\<close> is missing. This is
  its step that gives a logical qubit a node of the graph when it has none (section 3:
  the graph is over the logical qubits touched by two-qubit operations; section 4.1:
  the map from logical qubit to graph node and its inverse).
\<close>

definition ig_add_node :: "qubit \<Rightarrow> ig_result \<Rightarrow> ig_result" where
  "ig_add_node q r =
     (case r of (g, nm, rnm) \<Rightarrow>
        (case nm q of
           Some _ \<Rightarrow> (g, nm, rnm)
         | None \<Rightarrow> (g\<lparr>num_nodes := num_nodes g + 1\<rparr>, nm(q \<mapsto> num_nodes g),
                    rnm(num_nodes g \<mapsto> q))))"

text \<open>
  Modelled from the spec: \<open>vf2_utils.build_interaction_graph\<close> is missing. This is
  its step for an operation on two qubits (section 4.1: add an edge between those two
  logical qubits; multi-edges collapse to one).
\<close>

definition ig_add_edge :: "qubit \<Rightarrow> qubit \<Rightarrow> ig_result \<Rightarrow> ig_result" where
  "ig_add_edge q0 q1 r =
     (case ig_add_node q1 (ig_add_node q0 r) of (g, nm, rnm) \<Rightarrow>
        (case (nm q0, nm q1) of
           (Some a, Some b) \<Rightarrow>
             if has_edge g a b then (g, nm, rnm)
             else (g\<lparr>edge_list := edge_list g @ [(a, b)]\<rparr>, nm, rnm)
         | _ \<Rightarrow> (g, nm, rnm)))"

text \<open>
  Modelled from the spec: \<open>vf2_utils.build_interaction_graph\<close> is missing. This is
  its walk over the operations (section 4.1: for each operation touching exactly 2
  qubits, add an edge; if any operation touches more than 2 qubits, abort immediately
  with the sentinel, and no partial graph is produced).
\<close>

fun ig_walk :: "qubit list list \<Rightarrow> ig_result \<Rightarrow> ig_result option" where
  "ig_walk [] r = Some r"
| "ig_walk (qargs # rest) r =
     (if length qargs > 2 then None
      else (case qargs of
              [q0, q1] \<Rightarrow> ig_walk rest (ig_add_edge q0 q1 r)
            | _ \<Rightarrow> ig_walk rest r))"

text \<open>
  Modelled from the spec: \<open>vf2_utils.build_interaction_graph\<close> is missing. Section
  4.1: the walk starts from the empty graph, directed iff \<open>strict_direction\<close>, and
  returns the graph, the map from logical qubit to graph node and its inverse, or the
  sentinel.
\<close>

definition build_interaction_graph_spec :: "DAGCircuit \<Rightarrow> bool \<Rightarrow> ig_result option" where
  "build_interaction_graph_spec dag strict =
     ig_walk (op_nodes dag)
       (\<lparr>is_directed = strict, num_nodes = 0, edge_list = []\<rparr>, Map.empty, Map.empty)"

text \<open>
  Modelled from the spec: \<open>Layout.add_register\<close> is missing. Section 3: qubits never
  used in two-qubit operations are assigned arbitrary unused physical qubits. The
  unused index taken here is the first gap below the number of entries, or that number
  when there is no gap.
\<close>

definition unused_physical :: "Layout \<Rightarrow> nat" where
  "unused_physical L =
     (case find (\<lambda>p. p \<notin> snd ` set L) [0..<length L] of Some p \<Rightarrow> p | None \<Rightarrow> length L)"

text \<open>
  Modelled from the spec: \<open>Layout.add_register\<close> is missing. This is its step for one
  qubit of the register: a qubit that has no entry gets an unused physical qubit.
\<close>

definition add_bit :: "Layout \<Rightarrow> qubit \<Rightarrow> Layout" where
  "add_bit L q = (if map_of L q = None then L @ [(q, unused_physical L)] else L)"

text \<open>
  Modelled from the spec: \<open>Layout.add_register\<close> is missing. Section 3: the emitted
  layout is extended to cover every logical qubit declared by the circuit's registers.
\<close>

definition add_register_spec :: "Layout \<Rightarrow> qubit list \<Rightarrow> Layout" where
  "add_register_spec L reg = foldl add_bit L reg"

subsection \<open>Notions used to state the properties\<close>

text \<open>
  A candidate \<open>m\<close> (pairs of coupling-graph node and interaction-graph node) is a
  subgraph embedding: it is one-to-one, names nodes of the two graphs, covers every
  interaction-graph node and sends every interaction-graph edge to an edge of the
  coupling graph (\<open>has_edge\<close> looks at the direction iff the graph is directed).
\<close>

definition is_embedding :: "pygraph \<Rightarrow> pygraph \<Rightarrow> (nat \<times> nat) list \<Rightarrow> bool" where
  "is_embedding cmg img m =
     (distinct (map fst m) \<and> distinct (map snd m) \<and>
      (\<forall>(i, a) \<in> set m. i < num_nodes cmg \<and> a < num_nodes img) \<and>
      (\<forall>a \<in> set [0..<num_nodes img]. a \<in> snd ` set m) \<and>
      (\<forall>(a, b) \<in> set (edge_list img). \<forall>(i, a') \<in> set m. \<forall>(j, b') \<in> set m.
         a' = a \<and> b' = b \<longrightarrow> has_edge cmg i j))"

text \<open>
  What the search needs from the result of \<open>build_interaction_graph\<close>: the graph has
  the kind that \<open>strict_direction\<close> asks for, its edges join its nodes, and the inverse
  node map names a different qubit for every node.
\<close>

definition interaction_graph_ok :: "ig_result \<Rightarrow> bool \<Rightarrow> bool" where
  "interaction_graph_ok r strict =
     (case r of (img, nm, rnm) \<Rightarrow>
        is_directed img = strict \<and>
        (\<forall>(a, b) \<in> set (edge_list img). a < num_nodes img \<and> b < num_nodes img) \<and>
        (\<forall>a \<in> set [0..<num_nodes img]. rnm a \<noteq> None) \<and>
        distinct (map rnm [0..<num_nodes img]))"

text \<open>Two physical qubits are coupled on the device.\<close>

definition coupled :: "CouplingMap \<Rightarrow> bool \<Rightarrow> nat \<Rightarrow> nat \<Rightarrow> bool" where
  "coupled cm strict p q =
     ((p, q) \<in> set (edge_list (graph cm)) \<or> (\<not> strict \<and> (q, p) \<in> set (edge_list (graph cm))))"

text \<open>
  What the search needs from the result of \<open>shuffle_coupling_graph\<close>: the table
  \<open>cm_nodes\<close> has an entry for every node of the relabelled graph, and it takes every
  edge of the relabelled graph back to a coupling of the device.
\<close>

definition coupling_view_ok :: "CouplingMap \<Rightarrow> bool \<Rightarrow> pygraph \<times> nat list \<Rightarrow> bool" where
  "coupling_view_ok cm strict v =
     (case v of (cmg, cmn) \<Rightarrow>
        is_directed cmg = strict \<and> length cmn = num_nodes cmg \<and>
        (\<forall>(i, j) \<in> set (edge_list cmg).
           i < num_nodes cmg \<and> j < num_nodes cmg \<and> coupled cm strict (cmn ! i) (cmn ! j)))"

text \<open>
  A layout sends every edge of the interaction graph to a coupling of the device.
\<close>

definition layout_respects ::
  "Layout \<Rightarrow> pygraph \<Rightarrow> (nat \<rightharpoonup> qubit) \<Rightarrow> CouplingMap \<Rightarrow> bool \<Rightarrow> bool" where
  "layout_respects L img rnm cm strict =
     (\<forall>(a, b) \<in> set (edge_list img).
        (case (rnm a, rnm b) of
           (Some qa, Some qb) \<Rightarrow>
             (case (map_of L qa, map_of L qb) of
                (Some pa, Some pb) \<Rightarrow> coupled cm strict pa pb
              | _ \<Rightarrow> False)
         | _ \<Rightarrow> False))"

text \<open>
  What the publishing needs from \<open>Layout.add_register\<close>: it keeps the entries the
  layout has, and the layout it returns has an entry for every qubit of the register.
\<close>

definition add_register_ok :: "(Layout \<Rightarrow> qubit list \<Rightarrow> Layout) \<Rightarrow> bool" where
  "add_register_ok f =
     (\<forall>L reg. (\<forall>q p. map_of L q = Some p \<longrightarrow> map_of (f L reg) q = Some p) \<and>
               (\<forall>q \<in> set reg. map_of (f L reg) q \<noteq> None))"

text \<open>The state in which an iteration calls the scorer.\<close>

definition enter_trial :: "search_state \<Rightarrow> search_state" where
  "enter_trial st = st\<lparr>trials := trials st + 1, stop_reason := Some SOLUTION_FOUND,
                       score_calls := score_calls st + 1\<rparr>"

subsection \<open>An example device, circuit and environment\<close>

text \<open>
  The circuit of the end-to-end example: two-qubit operations on the pairs (0,1) and
  (1,2) of a 3-qubit register; \<open>ex_dag4\<close> has a fourth, idle qubit. The devices are
  lines of 3 and of 4 physical qubits.
\<close>

definition ex_dag :: DAGCircuit where
  "ex_dag = \<lparr>op_nodes = [[0, 1], [1, 2]], qregs = [(''q'', [0, 1, 2])]\<rparr>"

definition ex_dag4 :: DAGCircuit where
  "ex_dag4 = \<lparr>op_nodes = [[0, 1], [1, 2]], qregs = [(''q'', [0, 1, 2, 3])]\<rparr>"

definition ex_line3 :: CouplingMap where
  "ex_line3 = \<lparr>graph = \<lparr>is_directed = True, num_nodes = 3, edge_list = [(0, 1), (1, 2)]\<rparr>\<rparr>"

definition ex_line4 :: CouplingMap where
  "ex_line4 =
     \<lparr>graph = \<lparr>is_directed = True, num_nodes = 4, edge_list = [(0, 1), (1, 2), (2, 3)]\<rparr>\<rparr>"

text \<open>
  An example environment. The shuffle leaves the nodes as they are for the seed -1 and
  reverses their order for every other seed; the engine yields, from a fixed table,
  the candidates that are embeddings; the score of a layout is the sum of its physical
  indices; the clock advances by one second per reading.
\<close>

definition ex_shuffle :: "CouplingMap \<Rightarrow> int option \<Rightarrow> bool \<Rightarrow> pygraph \<times> nat list" where
  "ex_shuffle cm sd strict =
     (let n = num_nodes (graph cm) in
      if sd = Some (- 1)
      then ((graph cm)\<lparr>is_directed := strict\<rparr>, [0..<n])
      else (\<lparr>is_directed = strict, num_nodes = n,
             edge_list = map (\<lambda>(u, v). (n - 1 - u, n - 1 - v)) (edge_list (graph cm))\<rparr>,
            rev [0..<n]))"

definition ex_candidates :: "(nat \<times> nat) list list" where
  "ex_candidates =
     [[(1, 0), (2, 1), (3, 2)], [(0, 0), (1, 1), (2, 2)],
      [(2, 0), (1, 1), (0, 2)], [(3, 0), (2, 1), (1, 2)]]"

definition ex_env :: env where
  "ex_env =
     \<lparr>build_average_error_map =
        (\<lambda>tg props cm. case tg of Some t \<Rightarrow> Some (target_errors t) | None \<Rightarrow> props),
      build_interaction_graph = build_interaction_graph_spec,
      shuffle_coupling_graph = ex_shuffle,
      score_layout = (\<lambda>em L nm rnm g strict. real (sum_list (map snd L))),
      vf2_mapping = (\<lambda>cmg img cl. filter (is_embedding cmg img) ex_candidates),
      add_register = add_register_spec,
      time_time = (\<lambda>k. real k)\<rparr>"

text \<open>A pass on a device, with no limit configured and no shuffle.\<close>

definition ex_pass :: "CouplingMap \<Rightarrow> VF2Layout" where
  "ex_pass cm = init (Some cm) False (Some (- 1)) None None None None None
                  \<lparr>layout = None, VF2Layout_stop_reason = None\<rparr>"

text \<open>The interaction graph of the example circuit, with its two node maps.\<close>

definition ex_result :: "bool \<Rightarrow> ig_result" where
  "ex_result strict =
     (\<lparr>is_directed = strict, num_nodes = 3, edge_list = [(0, 1), (1, 2)]\<rparr>,
      [0 \<mapsto> 0, 1 \<mapsto> 1, 2 \<mapsto> 2], [0 \<mapsto> 0, 1 \<mapsto> 1, 2 \<mapsto> 2])"

text \<open>The example circuit followed by a three-qubit operation.\<close>

definition ex_dag_ccx :: DAGCircuit where
  "ex_dag_ccx = \<lparr>op_nodes = [[0, 1], [0, 1, 2]], qregs = [(''q'', [0, 1, 2])]\<rparr>"

text \<open>A device with two coupled qubits.\<close>

definition ex_line2 :: CouplingMap where
  "ex_line2 = \<lparr>graph = \<lparr>is_directed = True, num_nodes = 2, edge_list = [(0, 1)]\<rparr>\<rparr>"


text \<open>
  A circuit with five two-qubit operations on six qubits; two calibration tables; the
  property set after a successful run on the example circuit; a pass that holds the
  first calibration table before and after its first run.
\<close>

definition ex_dag_big :: DAGCircuit where
  "ex_dag_big =
     \<lparr>op_nodes = [[0, 1], [1, 2], [2, 3], [3, 4], [4, 5]],
      qregs = [(''q'', [0, 1, 2, 3, 4, 5])]\<rparr>"

definition ex_cal1 :: BackendProperties where
  "ex_cal1 = [((0, 1), 1 / 100)]"

definition ex_cal2 :: BackendProperties where
  "ex_cal2 = [((0, 1), 1 / 20)]"

definition ex_found :: PropertySet where
  "ex_found = \<lparr>layout = Some [(0, 0), (1, 1), (2, 2)], VF2Layout_stop_reason = Some SOLUTION_FOUND\<rparr>"

definition ex_pass_cal :: VF2Layout where
  "ex_pass_cal = (ex_pass ex_line4)\<lparr>properties := Some ex_cal1\<rparr>"

definition ex_after_cal :: VF2Layout where
  "ex_after_cal =
     (ex_pass ex_line4)\<lparr>properties := Some ex_cal1, avg_error_map := Some ex_cal1,
        max_trials := Some 18, property_set := ex_found\<rparr>"

text \<open>
  The example environment with a clock that stands still, and a pass with a time limit
  of one second.
\<close>

definition ex_env_fast :: env where
  "ex_env_fast = ex_env\<lparr>time_time := (\<lambda>k. 0)\<rparr>"

definition ex_pass_timed :: VF2Layout where
  "ex_pass_timed = (ex_pass ex_line4)\<lparr>time_limit := Some 1\<rparr>"

text \<open>
  The retained score is the score of the retained layout (and there is no score when
  no layout is retained).
\<close>

definition scored :: "env \<Rightarrow> VF2Layout \<Rightarrow> run_locals \<Rightarrow> search_state \<Rightarrow> bool" where
  "scored e self lv st =
     (case chosen_layout st of
        None \<Rightarrow> chosen_layout_score st = None
      | Some lay \<Rightarrow> chosen_layout_score st = Some (layout_score_of e self lv lay))"

text \<open>The locals and the stream of a run of the example pass on the line of four.\<close>

definition ex_locals4 :: run_locals where
  "ex_locals4 = make_locals ex_env (ex_pass ex_line4) ex_line4 (ex_result False)"

definition ex_stream4 :: "(nat \<times> nat) list list" where
  "ex_stream4 = engine_stream ex_env (ex_pass ex_line4) ex_locals4"

text \<open>
  A pass on the line of four that shuffles (seed 5) and respects the direction of the
  couplings, and the relabelled graph with its table that the example shuffle gives it.
\<close>

definition ex_pass_strict :: VF2Layout where
  "ex_pass_strict = (ex_pass ex_line4)\<lparr>seed := Some 5, strict_direction := True\<rparr>"

definition ex_view_strict :: "pygraph \<times> nat list" where
  "ex_view_strict =
     (\<lparr>is_directed = True, num_nodes = 4, edge_list = [(3, 2), (2, 1), (1, 0)]\<rparr>, [3, 2, 1, 0])"

text \<open>The example pass on the line of four, limited to one trial.\<close>

definition ex_pass_one :: VF2Layout where
  "ex_pass_one = (ex_pass ex_line4)\<lparr>max_trials := Some 1\<rparr>"

text \<open>
  An example scorer that reads the error map: the sum, over consecutive physical qubits
  of the layout, of the error that the map has for the pair, and 0 when there is no
  map. With it: the example environment, a calibration table, the environment whose
  scorer reads that table whatever map it is given, and a pass that holds the table
  before and after its first run.
\<close>

definition ex_score_cal ::
  "ErrorMap option \<Rightarrow> Layout \<Rightarrow> (qubit \<rightharpoonup> nat) \<Rightarrow> (nat \<rightharpoonup> qubit) \<Rightarrow> pygraph \<Rightarrow> bool \<Rightarrow> real" where
  "ex_score_cal em L nm rnm g strict =
     (case em of
        None \<Rightarrow> 0
      | Some t \<Rightarrow>
          sum_list (map (\<lambda>pr. case map_of t pr of Some x \<Rightarrow> x | None \<Rightarrow> 0)
                        (zip (map snd L) (tl (map snd L)))))"

definition ex_env_cal :: env where
  "ex_env_cal = ex_env\<lparr>score_layout := ex_score_cal\<rparr>"

definition ex_cal23 :: BackendProperties where
  "ex_cal23 = [((2, 3), 1 / 10)]"

definition ex_env_cal_stored :: env where
  "ex_env_cal_stored = ex_env_cal\<lparr>score_layout := (\<lambda>em. ex_score_cal (Some ex_cal23))\<rparr>"

definition ex_pass_cal23 :: VF2Layout where
  "ex_pass_cal23 = (ex_pass ex_line4)\<lparr>properties := Some ex_cal23\<rparr>"

definition ex_after_cal23 :: VF2Layout where
  "ex_after_cal23 =
     (ex_pass ex_line4)\<lparr>properties := Some ex_cal23, avg_error_map := Some ex_cal23,
        max_trials := Some 18, property_set := ex_found\<rparr>"


section \<open>Properties of the loop\<close>

lemma retain_trials: "retain st lay sc = Inr st' \<Longrightarrow> trials st' = trials st"
  by (auto simp: retain_def split: option.splits if_splits)

lemma retain_stop: "retain st lay sc = Inr st' \<Longrightarrow> stop_reason st' = stop_reason st"
  by (auto simp: retain_def split: option.splits if_splits)

lemma retain_calls: "retain st lay sc = Inr st' \<Longrightarrow> score_calls st' = score_calls st"
  by (auto simp: retain_def split: option.splits if_splits)

lemma retain_chosen: "retain st lay sc = Inr st' \<Longrightarrow> chosen_layout st' \<noteq> None"
  by (auto simp: retain_def split: option.splits if_splits)

text \<open>One iteration of the loop, by cases on how it ends.\<close>

lemma search_Cons_cases:
  assumes "search e self lv st (m # ms) = Inr st'"
  obtains
    (equal) lay where "candidate_layout lv m = Inr lay"
      "num_nodes (cm_graph lv) = num_nodes (im_graph lv)"
      "st' = st\<lparr>trials := trials st + 1, stop_reason := Some SOLUTION_FOUND,
                chosen_layout := Some lay\<rparr>"
  | (stop) lay where "candidate_layout lv m = Inr lay"
      "num_nodes (cm_graph lv) \<noteq> num_nodes (im_graph lv)"
      "retain (enter_trial st) lay (layout_score_of e self lv lay) = Inr st'"
      "max_trials_reached self st' \<or> time_limit_reached e self lv st'"
  | (continue) lay st2 where "candidate_layout lv m = Inr lay"
      "num_nodes (cm_graph lv) \<noteq> num_nodes (im_graph lv)"
      "retain (enter_trial st) lay (layout_score_of e self lv lay) = Inr st2"
      "\<not> max_trials_reached self st2" "\<not> time_limit_reached e self lv st2"
      "search e self lv st2 ms = Inr st'"
proof (cases "candidate_layout lv m")
  case (Inl err)
  with assms show ?thesis by simp
next
  case (Inr lay)
  show ?thesis
  proof (cases "num_nodes (cm_graph lv) = num_nodes (im_graph lv)")
    case True
    with assms Inr show ?thesis by (intro equal [of lay]) auto
  next
    case False
    from assms Inr False obtain st2 where
      r: "retain (enter_trial st) lay (layout_score_of e self lv lay) = Inr st2"
      by (auto simp: enter_trial_def split: sum.splits)
    show ?thesis
    proof (cases "max_trials_reached self st2 \<or> time_limit_reached e self lv st2")
      case True
      with assms Inr False r have "st' = st2"
        by (auto simp: enter_trial_def split: if_splits)
      with True r Inr False show ?thesis by (intro stop [of lay]) auto
    next
      case False2: False
      with assms Inr False r have "search e self lv st2 ms = Inr st'"
        by (auto simp: enter_trial_def)
      with False2 r Inr False show ?thesis by (intro continue [of lay st2]) auto
    qed
  qed
qed

text \<open>Once a layout is retained, one stays retained and the reason stays set.\<close>

lemma search_keeps_found:
  "search e self lv st ms = Inr st' \<Longrightarrow> chosen_layout st \<noteq> None \<Longrightarrow>
   stop_reason st = Some SOLUTION_FOUND \<Longrightarrow>
   chosen_layout st' \<noteq> None \<and> stop_reason st' = Some SOLUTION_FOUND"
proof (induction ms arbitrary: st)
  case Nil
  then show ?case by simp
next
  case (Cons m ms)
  from Cons.prems(1) show ?case
  proof (cases rule: search_Cons_cases)
    case (equal lay)
    then show ?thesis by simp
  next
    case (stop lay)
    then show ?thesis using retain_chosen retain_stop by (fastforce simp: enter_trial_def)
  next
    case (continue lay st2)
    have "chosen_layout st2 \<noteq> None" using retain_chosen continue(3) by blast
    moreover have "stop_reason st2 = Some SOLUTION_FOUND"
      using retain_stop [OF continue(3)] by (simp add: enter_trial_def)
    ultimately show ?thesis using Cons.IH [OF continue(6)] by blast
  qed
qed

lemma search_nonempty_found:
  assumes "search e self lv st (m # ms) = Inr st'"
  shows "chosen_layout st' \<noteq> None \<and> stop_reason st' = Some SOLUTION_FOUND"
  using assms
proof (cases rule: search_Cons_cases)
  case (equal lay)
  then show ?thesis by simp
next
  case (stop lay)
  then show ?thesis using retain_chosen retain_stop by (fastforce simp: enter_trial_def)
next
  case (continue lay st2)
  have "chosen_layout st2 \<noteq> None" using retain_chosen continue(3) by blast
  moreover have "stop_reason st2 = Some SOLUTION_FOUND"
    using retain_stop [OF continue(3)] by (simp add: enter_trial_def)
  ultimately show ?thesis using search_keeps_found [OF continue(6)] by blast
qed

lemma retain_total:
  "chosen_layout st \<noteq> None \<longrightarrow> chosen_layout_score st \<noteq> None \<Longrightarrow>
   \<exists>st'. retain st lay sc = Inr st'"
  by (auto simp: retain_def split: option.splits)

lemma retain_scored:
  "retain st lay sc = Inr st' \<Longrightarrow>
   chosen_layout st \<noteq> None \<longrightarrow> chosen_layout_score st \<noteq> None \<Longrightarrow>
   chosen_layout_score st' \<noteq> None"
  by (auto simp: retain_def split: option.splits if_splits)

text \<open>
  The loop raises nothing when the comprehension succeeds on every candidate and a
  retained layout has a score.
\<close>

lemma search_total:
  "\<forall>m \<in> set ms. \<exists>lay. candidate_layout lv m = Inr lay \<Longrightarrow>
   chosen_layout st \<noteq> None \<longrightarrow> chosen_layout_score st \<noteq> None \<Longrightarrow>
   \<exists>st'. search e self lv st ms = Inr st'"
proof (induction ms arbitrary: st)
  case Nil
  then show ?case by simp
next
  case (Cons m ms)
  from Cons.prems(1) obtain lay where lay: "candidate_layout lv m = Inr lay" by auto
  have inv: "chosen_layout (enter_trial st) \<noteq> None \<longrightarrow> chosen_layout_score (enter_trial st) \<noteq> None"
    using Cons.prems(2) by (simp add: enter_trial_def)
  from retain_total [OF inv] obtain st2 where
    r: "retain (enter_trial st) lay (layout_score_of e self lv lay) = Inr st2" by blast
  have "chosen_layout st2 \<noteq> None \<longrightarrow> chosen_layout_score st2 \<noteq> None"
    using retain_scored [OF r inv] by simp
  with Cons.IH [of st2] Cons.prems(1) obtain st3 where "search e self lv st2 ms = Inr st3"
    by auto
  with lay r show ?case
    by (auto simp: enter_trial_def Let_def)
qed

section \<open>Properties of \<open>run\<close>\<close>

lemma cache_error_map_fields:
  "target (cache_error_map e self cm) = target self"
  "coupling_map (cache_error_map e self cm) = coupling_map self"
  "properties (cache_error_map e self cm) = properties self"
  "strict_direction (cache_error_map e self cm) = strict_direction self"
  "seed (cache_error_map e self cm) = seed self"
  "call_limit (cache_error_map e self cm) = call_limit self"
  "time_limit (cache_error_map e self cm) = time_limit self"
  "max_trials (cache_error_map e self cm) = max_trials self"
  "property_set (cache_error_map e self cm) = property_set self"
  by (simp_all add: cache_error_map_def)

lemma default_max_trials_fields:
  "target (default_max_trials self img cm) = target self"
  "coupling_map (default_max_trials self img cm) = coupling_map self"
  "properties (default_max_trials self img cm) = properties self"
  "strict_direction (default_max_trials self img cm) = strict_direction self"
  "seed (default_max_trials self img cm) = seed self"
  "call_limit (default_max_trials self img cm) = call_limit self"
  "time_limit (default_max_trials self img cm) = time_limit self"
  "avg_error_map (default_max_trials self img cm) = avg_error_map self"
  "property_set (default_max_trials self img cm) = property_set self"
  by (simp_all add: default_max_trials_def)

lemma run_search_phase:
  "coupling_map self = Some cm \<Longrightarrow>
   build_interaction_graph e dag (strict_direction self) = Some result \<Longrightarrow>
   run e self dag = search_phase e (cache_error_map e self cm) cm dag result"
  by (simp add: run_def Let_def cache_error_map_fields)

lemma search_equal_first:
  assumes "num_nodes (cm_graph lv) = num_nodes (im_graph lv)" "candidate_layout lv m = Inr lay"
  shows "search e self lv search_init (m # rest) =
         Inr \<lparr>chosen_layout = Some lay, chosen_layout_score = None, trials = 1,
              stop_reason = Some SOLUTION_FOUND, score_calls = 0\<rparr>"
  using assms by (simp add: search_init_def)

text \<open>The example circuit gives the example interaction graph.\<close>

lemma ex_build:
  "build_interaction_graph ex_env ex_dag strict = Some (ex_result strict)"
  by (simp add: ex_env_def ex_dag_def ex_result_def build_interaction_graph_spec_def
      ig_add_edge_def ig_add_node_def has_edge_def numeral_2_eq_2)

lemma ex_build4:
  "build_interaction_graph ex_env ex_dag4 strict = Some (ex_result strict)"
  by (simp add: ex_env_def ex_dag4_def ex_result_def build_interaction_graph_spec_def
      ig_add_edge_def ig_add_node_def has_edge_def numeral_2_eq_2)

lemma ex_pass_fields:
  "coupling_map (ex_pass cm) = Some cm" "strict_direction (ex_pass cm) = False"
  "seed (ex_pass cm) = Some (- 1)" "max_trials (ex_pass cm) = None"
  "call_limit (ex_pass cm) = None" "time_limit (ex_pass cm) = None"
  "avg_error_map (ex_pass cm) = None" "target (ex_pass cm) = None" "properties (ex_pass cm) = None"
  "property_set (ex_pass cm) = \<lparr>layout = None, VF2Layout_stop_reason = None\<rparr>"
  by (simp_all add: ex_pass_def init_def)

text \<open>The walk over the operations gives the sentinel when one has three operands or more.\<close>

lemma ig_walk_abort:
  "\<exists>qargs \<in> set ops. 3 \<le> length qargs \<Longrightarrow> ig_walk ops r = None"
proof (induction ops arbitrary: r)
  case Nil
  then show ?case by simp
next
  case (Cons qargs ops)
  show ?case
  proof (cases "3 \<le> length qargs")
    case True
    then show ?thesis by simp
  next
    case False
    with Cons.prems have "\<exists>qargs \<in> set ops. 3 \<le> length qargs" by auto
    then have "\<And>r'. ig_walk ops r' = None" using Cons.IH by blast
    then show ?thesis by (simp split: list.splits)
  qed
qed

text \<open>Adding registers keeps the entries of a layout and covers the registers.\<close>

lemma map_of_add_bit_keep: "map_of L q = Some p \<Longrightarrow> map_of (add_bit L q') q = Some p"
  by (simp add: add_bit_def map_add_def)

lemma map_of_add_bit_cover: "map_of (add_bit L q) q \<noteq> None"
  by (auto simp: add_bit_def map_add_def)

lemma map_of_add_register_keep:
  "map_of L q = Some p \<Longrightarrow> map_of (add_register_spec L reg) q = Some p"
  unfolding add_register_spec_def
  by (induction reg arbitrary: L) (simp_all add: map_of_add_bit_keep)

lemma map_of_add_register_cover:
  "q \<in> set reg \<Longrightarrow> map_of (add_register_spec L reg) q \<noteq> None"
  unfolding add_register_spec_def
proof (induction reg arbitrary: L)
  case Nil
  then show ?case by simp
next
  case (Cons a reg)
  show ?case
  proof (cases "q = a")
    case True
    obtain p where "map_of (add_bit L a) a = Some p" using map_of_add_bit_cover by blast
    then have "map_of (add_register_spec (add_bit L a) reg) a = Some p"
      by (rule map_of_add_register_keep)
    then show ?thesis using True by (simp add: add_register_spec_def)
  next
    case False
    with Cons show ?thesis by simp
  qed
qed

lemma add_register_spec_ok: "add_register_ok add_register_spec"
  unfolding add_register_ok_def
  using map_of_add_register_keep map_of_add_register_cover by blast

lemma map_of_add_registers_keep:
  "add_register_ok f \<Longrightarrow> map_of L q = Some p \<Longrightarrow> map_of (foldl f L regs) q = Some p"
  by (induction regs arbitrary: L) (simp_all add: add_register_ok_def)

lemma map_of_add_registers_cover:
  "add_register_ok f \<Longrightarrow> reg \<in> set regs \<Longrightarrow> q \<in> set reg \<Longrightarrow>
   map_of (foldl f L regs) q \<noteq> None"
proof (induction regs arbitrary: L)
  case Nil
  then show ?case by simp
next
  case (Cons a regs)
  show ?case
  proof (cases "reg = a")
    case True
    from Cons.prems(1) have "\<forall>q \<in> set a. map_of (f L a) q \<noteq> None"
      unfolding add_register_ok_def by blast
    with Cons.prems(3) True obtain p where "map_of (f L a) q = Some p"
      by auto
    then show ?thesis using Cons.prems(1) by (simp add: map_of_add_registers_keep)
  next
    case False
    with Cons show ?thesis by simp
  qed
qed

lemma publish_found:
  "chosen_layout st = Some lay \<Longrightarrow> stop_reason st = Some SOLUTION_FOUND \<Longrightarrow>
   publish e self dag st =
     Inr (self\<lparr>property_set := (property_set self)
            \<lparr>layout := Some (foldl (add_register e) lay (map snd (qregs dag))),
             VF2Layout_stop_reason := Some SOLUTION_FOUND\<rparr>\<rparr>)"
  by (simp add: publish_def)

text \<open>
  With a positive trial limit and no time limit, the loop on graphs of different sizes
  makes as many trials as there are candidates, up to the limit.
\<close>

lemma search_trials_capped:
  "search e self lv st ms = Inr st' \<Longrightarrow> num_nodes (cm_graph lv) \<noteq> num_nodes (im_graph lv) \<Longrightarrow>
   time_limit self = None \<Longrightarrow> max_trials self = Some mt \<Longrightarrow> int (trials st) < mt \<Longrightarrow>
   trials st' = min (trials st + length ms) (nat mt)"
proof (induction ms arbitrary: st)
  case Nil
  then show ?case by simp
next
  case (Cons m ms)
  from Cons.prems(1) show ?case
  proof (cases rule: search_Cons_cases)
    case (equal lay)
    with Cons.prems show ?thesis by simp
  next
    case (stop lay)
    have t: "trials st' = trials st + 1"
      using retain_trials [OF stop(3)] by (simp add: enter_trial_def)
    from stop(4) have "mt \<le> int (trials st')"
      using Cons.prems by (simp add: max_trials_reached_def time_limit_reached_def)
    with t Cons.prems(5) show ?thesis by simp
  next
    case (continue lay st2)
    have t: "trials st2 = trials st + 1"
      using retain_trials [OF continue(3)] by (simp add: enter_trial_def)
    from continue(4) have "int (trials st2) < mt"
      using Cons.prems by (simp add: max_trials_reached_def)
    from Cons.IH [OF continue(6) Cons.prems(2,3,4) this] t show ?thesis by simp
  qed
qed

text \<open>What \<open>run\<close> leaves of the instance it was given.\<close>

lemma publish_instance:
  "publish e self dag st = Inr self' \<Longrightarrow> self' = self\<lparr>property_set := property_set self'\<rparr>"
  by (auto simp: publish_def split: option.splits)

lemma run_instance:
  assumes cm: "coupling_map self = Some cm" and ret: "run e self dag = Inr self'"
  shows "avg_error_map self' = avg_error_map (cache_error_map e self cm) \<and>
         target self' = target self \<and> properties self' = properties self \<and>
         coupling_map self' = coupling_map self \<and> strict_direction self' = strict_direction self \<and>
         seed self' = seed self \<and> call_limit self' = call_limit self \<and>
         time_limit self' = time_limit self"
proof (cases "build_interaction_graph e dag (strict_direction self)")
  case None
  with cm ret show ?thesis
    by (auto simp: run_def Let_def cache_error_map_fields)
next
  case (Some result)
  let ?lv = "make_locals e (cache_error_map e self cm) cm result"
  let ?self2 = "default_max_trials (cache_error_map e self cm) (im_graph ?lv) cm"
  from run_search_phase [OF cm Some] ret obtain st where
    "publish e ?self2 dag st = Inr self'"
    by (auto simp: search_phase_def Let_def split: sum.splits)
  from publish_instance [OF this] have "self' = ?self2\<lparr>property_set := property_set self'\<rparr>" .
  then have f: "avg_error_map self' = avg_error_map ?self2" "target self' = target ?self2"
    "properties self' = properties ?self2" "coupling_map self' = coupling_map ?self2"
    "strict_direction self' = strict_direction ?self2" "seed self' = seed ?self2"
    "call_limit self' = call_limit ?self2" "time_limit self' = time_limit ?self2"
    by (metis VF2Layout.select_convs VF2Layout.surjective VF2Layout.update_convs)+
  show ?thesis unfolding f by (simp add: default_max_trials_fields cache_error_map_fields)
qed

text \<open>Two runs of one instance, the calibration data replaced in between.\<close>

lemma ex_first_run_cal: "run ex_env ex_pass_cal ex_dag = Inr ex_after_cal"
  by code_simp

lemma ex_second_run_cal:
  "run ex_env (ex_after_cal\<lparr>properties := Some ex_cal2\<rparr>) ex_dag =
     Inr (ex_after_cal\<lparr>properties := Some ex_cal2\<rparr>)"
  by code_simp

text \<open>Without a time limit the loop and the publishing do not depend on the clock.\<close>

lemma search_without_time_limit:
  "time_limit self = None \<Longrightarrow>
   search (e\<lparr>time_time := c\<rparr>) self (lv\<lparr>start_time := t\<rparr>) st ms = search e self lv st ms"
proof (induction ms arbitrary: st)
  case Nil
  then show ?case by simp
next
  case (Cons m ms)
  have tl: "\<And>st2. time_limit_reached (e\<lparr>time_time := c\<rparr>) self (lv\<lparr>start_time := t\<rparr>) st2 = False"
       "\<And>st2. time_limit_reached e self lv st2 = False"
    using Cons.prems by (simp_all add: time_limit_reached_def)
  have sc: "\<And>lay. layout_score_of (e\<lparr>time_time := c\<rparr>) self (lv\<lparr>start_time := t\<rparr>) lay =
                  layout_score_of e self lv lay"
    by (simp add: layout_score_of_def)
  have cl: "candidate_layout (lv\<lparr>start_time := t\<rparr>) m = candidate_layout lv m"
    by (simp add: candidate_layout_def)
  show ?case
    using Cons.IH [OF Cons.prems]
    by (simp add: tl sc cl Let_def split: sum.splits)
qed

lemma publish_clock: "publish (e\<lparr>time_time := c\<rparr>) self dag st = publish e self dag st"
  by (simp add: publish_def split: option.splits)

text \<open>
  On graphs of different sizes the loop never replaces the retained layout by one with a
  higher score, and a loop that stops later ends with a score that is not higher.
\<close>

lemma scored_enter_trial: "scored e self lv (enter_trial st) = scored e self lv st"
  by (simp add: scored_def enter_trial_def split: option.splits)

lemma enter_trial_chosen:
  "chosen_layout (enter_trial st) = chosen_layout st"
  "chosen_layout_score (enter_trial st) = chosen_layout_score st"
  "trials (enter_trial st) = trials st + 1"
  by (simp_all add: enter_trial_def)

lemma retain_cases:
  assumes "retain st lay sc = Inr st'"
  obtains (first) "chosen_layout st = None"
      "st' = st\<lparr>chosen_layout := Some lay, chosen_layout_score := Some sc\<rparr>"
    | (better) l b where "chosen_layout st = Some l" "chosen_layout_score st = Some b" "sc < b"
      "st' = st\<lparr>chosen_layout := Some lay, chosen_layout_score := Some sc\<rparr>"
    | (kept) l b where "chosen_layout st = Some l" "chosen_layout_score st = Some b" "b \<le> sc"
      "st' = st"
  using assms by (auto simp: retain_def split: option.splits if_splits)

lemma retain_never_worse:
  assumes r: "retain st lay (layout_score_of e self lv lay) = Inr st'"
    and inv: "scored e self lv st"
  shows "scored e self lv st' \<and>
         (\<exists>l'. chosen_layout st' = Some l' \<and>
               layout_score_of e self lv l' \<le> layout_score_of e self lv lay \<and>
               (\<forall>l. chosen_layout st = Some l \<longrightarrow>
                    layout_score_of e self lv l' \<le> layout_score_of e self lv l))"
  using r
proof (cases rule: retain_cases)
  case first
  then show ?thesis by (simp add: scored_def)
next
  case (better l b)
  with inv show ?thesis by (simp add: scored_def)
next
  case (kept l b)
  with inv show ?thesis by (simp add: scored_def)
qed

lemma search_never_worse:
  "search e self lv st ms = Inr st' \<Longrightarrow> num_nodes (cm_graph lv) \<noteq> num_nodes (im_graph lv) \<Longrightarrow>
   scored e self lv st \<Longrightarrow> chosen_layout st = Some l \<Longrightarrow>
   \<exists>l'. chosen_layout st' = Some l' \<and> layout_score_of e self lv l' \<le> layout_score_of e self lv l"
proof (induction ms arbitrary: st l)
  case Nil
  then show ?case by simp
next
  case (Cons m ms)
  from Cons.prems(1) show ?case
  proof (cases rule: search_Cons_cases)
    case (equal lay)
    with Cons.prems show ?thesis by simp
  next
    case (stop lay)
    from retain_never_worse [OF stop(3)] Cons.prems(3,4) show ?thesis
      by (auto simp: scored_enter_trial enter_trial_chosen)
  next
    case (continue lay st2)
    from retain_never_worse [OF continue(3)] Cons.prems(3,4) obtain l2 where
      l2: "scored e self lv st2" "chosen_layout st2 = Some l2"
        "layout_score_of e self lv l2 \<le> layout_score_of e self lv l"
      by (auto simp: scored_enter_trial enter_trial_chosen)
    from Cons.IH [OF continue(6) Cons.prems(2) l2(1,2)] l2(3) show ?thesis
      by force
  qed
qed

lemma search_more_trials:
  assumes less: "\<And>st. max_trials_reached self2 st \<Longrightarrow> max_trials_reached self1 st"
    and same: "avg_error_map self2 = avg_error_map self1"
      "strict_direction self2 = strict_direction self1" "time_limit self2 = time_limit self1"
  shows "search e self1 lv st ms = Inr st1 \<Longrightarrow> search e self2 lv st ms = Inr st2 \<Longrightarrow>
     scored e self1 lv st \<Longrightarrow>
     (chosen_layout st1 = None \<longleftrightarrow> chosen_layout st2 = None) \<and>
     (\<forall>l1 l2. chosen_layout st1 = Some l1 \<longrightarrow> chosen_layout st2 = Some l2 \<longrightarrow>
        layout_score_of e self1 lv l2 \<le> layout_score_of e self1 lv l1)"
proof (induction ms arbitrary: st)
  case Nil
  then show ?case by auto
next
  case (Cons m ms)
  have sc: "\<And>lay. layout_score_of e self2 lv lay = layout_score_of e self1 lv lay"
    by (simp add: layout_score_of_def same)
  have tl: "\<And>st. time_limit_reached e self2 lv st = time_limit_reached e self1 lv st"
    by (simp add: time_limit_reached_def same)
  from Cons.prems(1) show ?case
  proof (cases rule: search_Cons_cases)
    case (equal lay)
    with Cons.prems(2) show ?thesis by simp
  next
    case (stop lay)
    from retain_never_worse [OF stop(3)] Cons.prems(3) obtain l1 where
      l1: "scored e self1 lv st1" "chosen_layout st1 = Some l1"
      by (auto simp: scored_enter_trial enter_trial_chosen)
    from Cons.prems(2) stop(1,2,3)
    have "st2 = st1 \<or> search e self2 lv st1 ms = Inr st2"
      by (auto simp: sc enter_trial_def split: if_splits)
    then show ?thesis
    proof
      assume "st2 = st1"
      then show ?thesis by simp
    next
      assume "search e self2 lv st1 ms = Inr st2"
      from search_never_worse [OF this stop(2) _ l1(2)] l1(1)
      show ?thesis using l1(2) by (auto simp: scored_def sc)
    qed
  next
    case (continue lay st2')
    from continue(4) less have "\<not> max_trials_reached self2 st2'" by blast
    with Cons.prems(2) continue(1,2,3,5) have "search e self2 lv st2' ms = Inr st2"
      by (auto simp: sc tl enter_trial_def)
    moreover have "scored e self1 lv st2'"
      using retain_never_worse [OF continue(3)] Cons.prems(3) by (simp add: scored_enter_trial)
    ultimately show ?thesis using Cons.IH [OF continue(6)] by blast
  qed
qed

text \<open>The loop on the example stream, for three values of \<open>max_trials\<close>.\<close>

lemma ex_search_unlimited:
  "search ex_env ((ex_pass ex_line4)\<lparr>max_trials := Some 0\<rparr>) ex_locals4 search_init ex_stream4 =
     Inr \<lparr>chosen_layout = Some [(0, 0), (1, 1), (2, 2)], chosen_layout_score = Some 3,
          trials = 4, stop_reason = Some SOLUTION_FOUND, score_calls = 4\<rparr>"
  by code_simp

lemma ex_search_one:
  "search ex_env ((ex_pass ex_line4)\<lparr>max_trials := Some 1\<rparr>) ex_locals4 search_init ex_stream4 =
     Inr \<lparr>chosen_layout = Some [(0, 1), (1, 2), (2, 3)], chosen_layout_score = Some 6,
          trials = 1, stop_reason = Some SOLUTION_FOUND, score_calls = 1\<rparr>"
  by code_simp

lemma ex_search_two:
  "search ex_env ((ex_pass ex_line4)\<lparr>max_trials := Some 2\<rparr>) ex_locals4 search_init ex_stream4 =
     Inr \<lparr>chosen_layout = Some [(0, 0), (1, 1), (2, 2)], chosen_layout_score = Some 3,
          trials = 2, stop_reason = Some SOLUTION_FOUND, score_calls = 2\<rparr>"
  by code_simp

text \<open>
  The loop on graphs of different sizes, from a state with a best so far: after \<open>n\<close>
  trials either the best so far is still retained, and none of the \<open>n\<close> candidates
  has a lower score, or the retained layout is that of one of the \<open>n\<close> candidates,
  with a score lower than the former best and than every earlier candidate, and not
  higher than any later one.
\<close>

lemma search_retains_earliest_best:
  "search e self lv st ms = Inr st' \<Longrightarrow> num_nodes (cm_graph lv) \<noteq> num_nodes (im_graph lv) \<Longrightarrow>
   chosen_layout st = None \<longrightarrow> chosen_layout_score st = None \<Longrightarrow>
   \<exists>n. trials st' = trials st + n \<and> n \<le> length ms \<and> (ms \<noteq> [] \<longrightarrow> 0 < n) \<and>
     ((chosen_layout st' = chosen_layout st \<and> chosen_layout_score st' = chosen_layout_score st \<and>
       (0 < n \<longrightarrow> chosen_layout st \<noteq> None) \<and>
       (\<forall>m' \<in> set (take n ms). \<forall>l' b. candidate_layout lv m' = Inr l' \<longrightarrow>
           chosen_layout_score st = Some b \<longrightarrow> b \<le> layout_score_of e self lv l'))
      \<or> (\<exists>pre m post lay. take n ms = pre @ m # post \<and> candidate_layout lv m = Inr lay \<and>
            chosen_layout st' = Some lay \<and>
            chosen_layout_score st' = Some (layout_score_of e self lv lay) \<and>
            (\<forall>b. chosen_layout_score st = Some b \<longrightarrow> layout_score_of e self lv lay < b) \<and>
            (\<forall>m' \<in> set pre. \<forall>l'. candidate_layout lv m' = Inr l' \<longrightarrow>
                layout_score_of e self lv lay < layout_score_of e self lv l') \<and>
            (\<forall>m' \<in> set post. \<forall>l'. candidate_layout lv m' = Inr l' \<longrightarrow>
                layout_score_of e self lv lay \<le> layout_score_of e self lv l')))"
proof (induction ms arbitrary: st)
  case Nil
  then show ?case by auto
next
  case (Cons m ms)
  let ?sc = "layout_score_of e self lv"
  have step: "(chosen_layout st2 = chosen_layout st \<and> chosen_layout_score st2 = chosen_layout_score st \<and>
        chosen_layout st \<noteq> None \<and> (\<forall>b. chosen_layout_score st = Some b \<longrightarrow> b \<le> ?sc lay))
      \<or> (chosen_layout st2 = Some lay \<and> chosen_layout_score st2 = Some (?sc lay) \<and>
          (\<forall>b. chosen_layout_score st = Some b \<longrightarrow> ?sc lay < b))"
    if "retain (enter_trial st) lay (?sc lay) = Inr st2" for st2 lay
    using that Cons.prems(3) by (cases rule: retain_cases) (auto simp: enter_trial_chosen)
  from Cons.prems(1) show ?case
  proof (cases rule: search_Cons_cases)
    case (equal lay)
    with Cons.prems show ?thesis by simp
  next
    case (stop lay)
    have t: "trials st' = trials st + 1"
      using retain_trials [OF stop(3)] by (simp add: enter_trial_chosen)
    from step [OF stop(3)] show ?thesis
    proof
      assume k: "chosen_layout st' = chosen_layout st \<and>
        chosen_layout_score st' = chosen_layout_score st \<and> chosen_layout st \<noteq> None \<and>
        (\<forall>b. chosen_layout_score st = Some b \<longrightarrow> b \<le> ?sc lay)"
      show ?thesis
        apply (rule exI [of _ 1])
        using t k stop(1) by auto
    next
      assume n: "chosen_layout st' = Some lay \<and> chosen_layout_score st' = Some (?sc lay) \<and>
          (\<forall>b. chosen_layout_score st = Some b \<longrightarrow> ?sc lay < b)"
      have "take 1 (m # ms) = [] @ m # []" by simp
      with n stop(1) t show ?thesis
        apply (intro exI [of _ 1])
        apply simp
        apply (rule disjI2)
        apply (rule exI [of _ "[]"], rule exI [of _ m], rule exI [of _ "[]"])
        by simp
    qed
  next
    case (continue lay st2)
    have t: "trials st2 = trials st + 1"
      using retain_trials [OF continue(3)] by (simp add: enter_trial_chosen)
    have inv2: "chosen_layout st2 = None \<longrightarrow> chosen_layout_score st2 = None"
      using retain_chosen [OF continue(3)] by auto
    from Cons.IH [OF continue(6) Cons.prems(2) inv2] obtain n where
      n: "trials st' = trials st2 + n" "n \<le> length ms" and
      ih: "(chosen_layout st' = chosen_layout st2 \<and> chosen_layout_score st' = chosen_layout_score st2 \<and>
       (0 < n \<longrightarrow> chosen_layout st2 \<noteq> None) \<and>
       (\<forall>m' \<in> set (take n ms). \<forall>l' b. candidate_layout lv m' = Inr l' \<longrightarrow>
           chosen_layout_score st2 = Some b \<longrightarrow> b \<le> ?sc l'))
      \<or> (\<exists>pre mk post l. take n ms = pre @ mk # post \<and> candidate_layout lv mk = Inr l \<and>
            chosen_layout st' = Some l \<and> chosen_layout_score st' = Some (?sc l) \<and>
            (\<forall>b. chosen_layout_score st2 = Some b \<longrightarrow> ?sc l < b) \<and>
            (\<forall>m' \<in> set pre. \<forall>l'. candidate_layout lv m' = Inr l' \<longrightarrow> ?sc l < ?sc l') \<and>
            (\<forall>m' \<in> set post. \<forall>l'. candidate_layout lv m' = Inr l' \<longrightarrow> ?sc l \<le> ?sc l'))"
      by blast
    have tk: "take (Suc n) (m # ms) = m # take n ms" by simp
    have tr: "trials st' = trials st + Suc n" using n(1) t by simp
    have len: "Suc n \<le> length (m # ms)" using n(2) by simp
    from step [OF continue(3)] show ?thesis
    proof
      assume k: "chosen_layout st2 = chosen_layout st \<and>
        chosen_layout_score st2 = chosen_layout_score st \<and> chosen_layout st \<noteq> None \<and>
        (\<forall>b. chosen_layout_score st = Some b \<longrightarrow> b \<le> ?sc lay)"
      from ih show ?thesis
      proof
        assume a: "chosen_layout st' = chosen_layout st2 \<and> chosen_layout_score st' = chosen_layout_score st2 \<and>
          (0 < n \<longrightarrow> chosen_layout st2 \<noteq> None) \<and>
          (\<forall>m' \<in> set (take n ms). \<forall>l' b. candidate_layout lv m' = Inr l' \<longrightarrow>
             chosen_layout_score st2 = Some b \<longrightarrow> b \<le> ?sc l')"
        show ?thesis
          apply (rule exI [of _ "Suc n"])
          unfolding tk using tr len a k continue(1) by auto
      next
        assume "\<exists>pre mk post l. take n ms = pre @ mk # post \<and> candidate_layout lv mk = Inr l \<and>
            chosen_layout st' = Some l \<and> chosen_layout_score st' = Some (?sc l) \<and>
            (\<forall>b. chosen_layout_score st2 = Some b \<longrightarrow> ?sc l < b) \<and>
            (\<forall>m' \<in> set pre. \<forall>l'. candidate_layout lv m' = Inr l' \<longrightarrow> ?sc l < ?sc l') \<and>
            (\<forall>m' \<in> set post. \<forall>l'. candidate_layout lv m' = Inr l' \<longrightarrow> ?sc l \<le> ?sc l')"
        then obtain pre mk post l where b: "take n ms = pre @ mk # post" "candidate_layout lv mk = Inr l"
            "chosen_layout st' = Some l" "chosen_layout_score st' = Some (?sc l)"
            "\<forall>b. chosen_layout_score st2 = Some b \<longrightarrow> ?sc l < b"
            "\<forall>m' \<in> set pre. \<forall>l'. candidate_layout lv m' = Inr l' \<longrightarrow> ?sc l < ?sc l'"
            "\<forall>m' \<in> set post. \<forall>l'. candidate_layout lv m' = Inr l' \<longrightarrow> ?sc l \<le> ?sc l'"
          by blast
        from k obtain l0 where l0: "chosen_layout st = Some l0" by auto
        have lt: "\<forall>b. chosen_layout_score st = Some b \<longrightarrow> ?sc l < b" using b(5) k by simp
        have "\<forall>l'. candidate_layout lv m = Inr l' \<longrightarrow> ?sc l < ?sc l'"
        proof (intro allI impI)
          fix l' assume "candidate_layout lv m = Inr l'"
          with continue(1) have "l' = lay" by simp
          show "?sc l < ?sc l'"
          proof (cases "chosen_layout_score st")
            case None
            with continue(3) l0 show ?thesis
              by (auto simp: retain_def enter_trial_chosen)
          next
            case (Some b0)
            with k lt \<open>l' = lay\<close> show ?thesis by fastforce
          qed
        qed
        with b(6) have pre: "\<forall>m' \<in> set (m # pre). \<forall>l'. candidate_layout lv m' = Inr l' \<longrightarrow> ?sc l < ?sc l'"
          by simp
        have tk': "take (Suc n) (m # ms) = (m # pre) @ mk # post" using b(1) by simp
        show ?thesis
          apply (rule exI [of _ "Suc n"])
          apply (intro conjI)
             apply (rule tr)
            apply (rule len)
           apply simp
          apply (rule disjI2)
          apply (rule exI [of _ "m # pre"], rule exI [of _ mk], rule exI [of _ post], rule exI [of _ l])
          using tk' b(2,3,4,7) lt pre by blast
      qed
    next
      assume nw: "chosen_layout st2 = Some lay \<and> chosen_layout_score st2 = Some (?sc lay) \<and>
          (\<forall>b. chosen_layout_score st = Some b \<longrightarrow> ?sc lay < b)"
      from ih show ?thesis
      proof
        assume a: "chosen_layout st' = chosen_layout st2 \<and> chosen_layout_score st' = chosen_layout_score st2 \<and>
          (0 < n \<longrightarrow> chosen_layout st2 \<noteq> None) \<and>
          (\<forall>m' \<in> set (take n ms). \<forall>l' b. candidate_layout lv m' = Inr l' \<longrightarrow>
             chosen_layout_score st2 = Some b \<longrightarrow> b \<le> ?sc l')"
        have tk': "take (Suc n) (m # ms) = [] @ m # take n ms" by simp
        have post: "\<forall>m' \<in> set (take n ms). \<forall>l'. candidate_layout lv m' = Inr l' \<longrightarrow> ?sc lay \<le> ?sc l'"
          using a nw by simp
        show ?thesis
          apply (rule exI [of _ "Suc n"])
          apply (intro conjI)
             apply (rule tr)
            apply (rule len)
           apply simp
          apply (rule disjI2)
          apply (rule exI [of _ "[]"], rule exI [of _ m], rule exI [of _ "take n ms"], rule exI [of _ lay])
          using tk' continue(1) a nw post by simp
      next
        assume "\<exists>pre mk post l. take n ms = pre @ mk # post \<and> candidate_layout lv mk = Inr l \<and>
            chosen_layout st' = Some l \<and> chosen_layout_score st' = Some (?sc l) \<and>
            (\<forall>b. chosen_layout_score st2 = Some b \<longrightarrow> ?sc l < b) \<and>
            (\<forall>m' \<in> set pre. \<forall>l'. candidate_layout lv m' = Inr l' \<longrightarrow> ?sc l < ?sc l') \<and>
            (\<forall>m' \<in> set post. \<forall>l'. candidate_layout lv m' = Inr l' \<longrightarrow> ?sc l \<le> ?sc l')"
        then obtain pre mk post l where b: "take n ms = pre @ mk # post" "candidate_layout lv mk = Inr l"
            "chosen_layout st' = Some l" "chosen_layout_score st' = Some (?sc l)"
            "\<forall>b. chosen_layout_score st2 = Some b \<longrightarrow> ?sc l < b"
            "\<forall>m' \<in> set pre. \<forall>l'. candidate_layout lv m' = Inr l' \<longrightarrow> ?sc l < ?sc l'"
            "\<forall>m' \<in> set post. \<forall>l'. candidate_layout lv m' = Inr l' \<longrightarrow> ?sc l \<le> ?sc l'"
          by blast
        have l_lay: "?sc l < ?sc lay" using b(5) nw by simp
        have lt: "\<forall>b. chosen_layout_score st = Some b \<longrightarrow> ?sc l < b" using l_lay nw by fastforce
        have "\<forall>l'. candidate_layout lv m = Inr l' \<longrightarrow> ?sc l < ?sc l'"
          using continue(1) l_lay by simp
        with b(6) have pre: "\<forall>m' \<in> set (m # pre). \<forall>l'. candidate_layout lv m' = Inr l' \<longrightarrow> ?sc l < ?sc l'"
          by simp
        have tk': "take (Suc n) (m # ms) = (m # pre) @ mk # post" using b(1) by simp
        show ?thesis
          apply (rule exI [of _ "Suc n"])
          apply (intro conjI)
             apply (rule tr)
            apply (rule len)
           apply simp
          apply (rule disjI2)
          apply (rule exI [of _ "m # pre"], rule exI [of _ mk], rule exI [of _ post], rule exI [of _ l])
          using tk' b(2,3,4,7) lt pre by blast
      qed
    qed
  qed
qed

text \<open>
  The layout built from an embedding: an interaction-graph node's qubit is sent to the
  physical qubit that \<open>cm_nodes\<close> gives for the node's image, so every edge of the
  interaction graph lands on a coupling of the device. The chosen layout is the layout
  of a candidate of the stream, and adding registers keeps the property.
\<close>

lemma layout_dict_untouched:
  "layout_dict rnm cmn m acc = Inr lay \<Longrightarrow> \<forall>(i, a) \<in> set m. rnm a \<noteq> Some q \<Longrightarrow>
   map_of lay q = map_of acc q"
proof (induction m arbitrary: acc)
  case Nil
  then show ?case by simp
next
  case (Cons p m)
  obtain i a where p: "p = (i, a)" by (cases p)
  from Cons.prems(1) p obtain q' where q': "rnm a = Some q'" "i < length cmn"
    "layout_dict rnm cmn m (AList.update q' (cmn ! i) acc) = Inr lay"
    by (auto split: option.splits if_splits)
  from Cons.prems(2) p q' have "q' \<noteq> q" by auto
  moreover from Cons.prems(2) have "\<forall>(i, a) \<in> set m. rnm a \<noteq> Some q" by simp
  ultimately show ?case using Cons.IH [OF q'(3)] by (simp add: update_conv')
qed

lemma layout_dict_lookup:
  "layout_dict rnm cmn m acc = Inr lay \<Longrightarrow> distinct (map snd m) \<Longrightarrow>
   inj_on rnm (snd ` set m) \<Longrightarrow> (i, a) \<in> set m \<Longrightarrow> rnm a = Some q \<Longrightarrow>
   map_of lay q = Some (cmn ! i)"
proof (induction m arbitrary: acc)
  case Nil
  then show ?case by simp
next
  case (Cons p m)
  obtain i0 a0 where p: "p = (i0, a0)" by (cases p)
  from Cons.prems(1) p obtain q0 where q0: "rnm a0 = Some q0" "i0 < length cmn"
    "layout_dict rnm cmn m (AList.update q0 (cmn ! i0) acc) = Inr lay"
    by (auto split: option.splits if_splits)
  show ?case
  proof (cases "(i, a) \<in> set m")
    case True
    have "inj_on rnm (snd ` set m)"
      using Cons.prems(3) by (auto simp: inj_on_def)
    with Cons.IH [OF q0(3) _ _ True Cons.prems(5)] Cons.prems(2) show ?thesis by simp
  next
    case False
    with Cons.prems(4) p have eq: "i = i0" "a = a0" by auto
    with q0 Cons.prems(5) have qq: "q0 = q" by simp
    have "\<forall>(j, b) \<in> set m. rnm b \<noteq> Some q"
    proof (clarify)
      fix j b assume jb: "(j, b) \<in> set m" and "rnm b = Some q"
      with Cons.prems(5) have "rnm b = rnm a" by simp
      moreover have "b \<in> snd ` set (p # m)" "a \<in> snd ` set (p # m)"
        using jb eq p by force+
      ultimately have "b = a" using Cons.prems(3) by (auto simp: inj_on_def)
      with jb eq p Cons.prems(2) show False by force
    qed
    from layout_dict_untouched [OF q0(3) this] qq eq show ?thesis
      by (simp add: update_conv')
  qed
qed

lemma layout_dict_total:
  "\<forall>(i, a) \<in> set m. rnm a \<noteq> None \<and> i < length cmn \<Longrightarrow>
   \<exists>lay. layout_dict rnm cmn m acc = Inr lay"
  by (induction m arbitrary: acc) auto

lemma coupled_sym: "\<not> strict \<Longrightarrow> coupled cm strict p q \<Longrightarrow> coupled cm strict q p"
  by (auto simp: coupled_def)

lemma has_edge_coupled:
  assumes cv: "coupling_view_ok cm strict (cmg, cmn)" and h: "has_edge cmg i j"
  shows "coupled cm strict (cmn ! i) (cmn ! j)"
proof -
  from cv have d: "is_directed cmg = strict"
    and ed: "\<And>i j. (i, j) \<in> set (edge_list cmg) \<Longrightarrow> coupled cm strict (cmn ! i) (cmn ! j)"
    by (auto simp: coupling_view_ok_def)
  from h consider "(i, j) \<in> set (edge_list cmg)" | "\<not> strict" "(j, i) \<in> set (edge_list cmg)"
    using d by (auto simp: has_edge_def)
  then show ?thesis
  proof cases
    case 1
    then show ?thesis by (rule ed)
  next
    case 2
    from ed [OF 2(2)] 2(1) show ?thesis by (rule coupled_sym [rotated])
  qed
qed

lemma embedding_layout_respects:
  assumes emb: "is_embedding cmg img m"
    and ig: "interaction_graph_ok (img, nm, rnm) strict"
    and cv: "coupling_view_ok cm strict (cmg, cmn)"
  shows "\<exists>lay. layout_dict rnm cmn m [] = Inr lay \<and> layout_respects lay img rnm cm strict"
proof -
  from emb have dist: "distinct (map snd m)"
    and rng: "\<And>i a. (i, a) \<in> set m \<Longrightarrow> i < num_nodes cmg \<and> a < num_nodes img"
    and cov: "\<And>a. a < num_nodes img \<Longrightarrow> a \<in> snd ` set m"
    by (auto simp: is_embedding_def)
  from emb have E: "\<forall>(a, b) \<in> set (edge_list img). \<forall>(i, a') \<in> set m. \<forall>(j, b') \<in> set m.
         a' = a \<and> b' = b \<longrightarrow> has_edge cmg i j"
    by (simp add: is_embedding_def)
  have edges: "has_edge cmg i j"
    if "(a, b) \<in> set (edge_list img)" "(i, a) \<in> set m" "(j, b) \<in> set m" for a b i j
    using E that by fast
  from ig have ends: "\<And>a b. (a, b) \<in> set (edge_list img) \<Longrightarrow> a < num_nodes img \<and> b < num_nodes img"
    and named: "\<And>a. a < num_nodes img \<Longrightarrow> rnm a \<noteq> None"
    and dr: "distinct (map rnm [0..<num_nodes img])"
    by (auto simp: interaction_graph_ok_def)
  from cv have len: "length cmn = num_nodes cmg" by (simp add: coupling_view_ok_def)
  have inj: "inj_on rnm (snd ` set m)"
  proof -
    have "inj_on rnm (set [0..<num_nodes img])" using dr by (simp only: distinct_map)
    moreover have "snd ` set m \<subseteq> set [0..<num_nodes img]" using rng by auto
    ultimately show ?thesis by (rule inj_on_subset)
  qed
  have "\<forall>(i, a) \<in> set m. rnm a \<noteq> None \<and> i < length cmn"
    using rng named len by auto
  from layout_dict_total [OF this] obtain lay where lay: "layout_dict rnm cmn m [] = Inr lay"
    by blast
  have R: "case (rnm a, rnm b) of
            (Some qa, Some qb) \<Rightarrow>
              (case (map_of lay qa, map_of lay qb) of
                 (Some pa, Some pb) \<Rightarrow> coupled cm strict pa pb
               | _ \<Rightarrow> False)
          | _ \<Rightarrow> False"
    if ab: "(a, b) \<in> set (edge_list img)" for a b
  proof -
    from ends [OF ab] have a: "a < num_nodes img" and b: "b < num_nodes img" by simp_all
    from cov [OF a] obtain i where i: "(i, a) \<in> set m" by force
    from cov [OF b] obtain j where j: "(j, b) \<in> set m" by force
    from named [OF a] obtain qa where qa: "rnm a = Some qa" by auto
    from named [OF b] obtain qb where qb: "rnm b = Some qb" by auto
    have pa: "map_of lay qa = Some (cmn ! i)"
      using layout_dict_lookup [OF lay dist inj i qa] .
    have pb: "map_of lay qb = Some (cmn ! j)"
      using layout_dict_lookup [OF lay dist inj j qb] .
    have "coupled cm strict (cmn ! i) (cmn ! j)"
      using has_edge_coupled [OF cv edges [OF ab i j]] .
    with qa qb pa pb show ?thesis by simp
  qed
  have "layout_respects lay img rnm cm strict"
    unfolding layout_respects_def using R by blast
  with lay show ?thesis by blast
qed


lemma search_chosen_from_stream:
  "search e self lv st ms = Inr st' \<Longrightarrow>
   chosen_layout st' = chosen_layout st \<or>
   (\<exists>m \<in> set ms. \<exists>lay. candidate_layout lv m = Inr lay \<and> chosen_layout st' = Some lay)"
proof (induction ms arbitrary: st)
  case Nil
  then show ?case by simp
next
  case (Cons m ms)
  have step: "chosen_layout st2 = chosen_layout st \<or> chosen_layout st2 = Some lay"
    if "retain (enter_trial st) lay sc = Inr st2" for st2 lay sc
    using that by (cases rule: retain_cases) (auto simp: enter_trial_chosen)
  from Cons.prems show ?case
  proof (cases rule: search_Cons_cases)
    case (equal lay)
    then show ?thesis by auto
  next
    case (stop lay)
    from step [OF stop(3)] stop(1) show ?thesis by auto
  next
    case (continue lay st2)
    from step [OF continue(3)] Cons.IH [OF continue(6)] continue(1) show ?thesis by auto
  qed
qed

lemma layout_respects_extended:
  assumes "layout_respects L img rnm cm strict" and ok: "add_register_ok f"
  shows "layout_respects (foldl f L regs) img rnm cm strict"
proof -
  have "case (rnm a, rnm b) of
            (Some qa, Some qb) \<Rightarrow>
              (case (map_of (foldl f L regs) qa,
                     map_of (foldl f L regs) qb) of
                 (Some pa, Some pb) \<Rightarrow> coupled cm strict pa pb
               | _ \<Rightarrow> False)
          | _ \<Rightarrow> False"
    if ab: "(a, b) \<in> set (edge_list img)" for a b
  proof -
    from assms(1) ab obtain qa qb pa pb where
      q: "rnm a = Some qa" "rnm b = Some qb" "map_of L qa = Some pa" "map_of L qb = Some pb"
        "coupled cm strict pa pb"
      by (fastforce simp: layout_respects_def split: option.splits)
    from map_of_add_registers_keep [OF ok q(3)] map_of_add_registers_keep [OF ok q(4)] q
    show ?thesis by simp
  qed
  then show ?thesis unfolding layout_respects_def by blast
qed

text \<open>
  The loop reads the scorer through \<open>layout_score_of\<close> only, and the publishing does
  not read it.
\<close>

lemma search_scorer:
  assumes "\<And>lay. layout_score_of (e\<lparr>score_layout := f\<rparr>) self lv lay = layout_score_of e self lv lay"
  shows "search (e\<lparr>score_layout := f\<rparr>) self lv st ms = search e self lv st ms"
proof (induction ms arbitrary: st)
  case Nil
  then show ?case by simp
next
  case (Cons m ms)
  have tl: "\<And>st2. time_limit_reached (e\<lparr>score_layout := f\<rparr>) self lv st2 =
                  time_limit_reached e self lv st2"
    by (simp add: time_limit_reached_def split: option.splits)
  show ?case
    using Cons.IH by (simp add: tl assms Let_def split: sum.splits)
qed

lemma publish_scorer: "publish (e\<lparr>score_layout := f\<rparr>) self dag st = publish e self dag st"
  by (simp add: publish_def split: option.splits)

text \<open>Two runs of one instance, the calibration data removed in between.\<close>

lemma ex_first_run_cal23: "run ex_env_cal ex_pass_cal23 ex_dag = Inr ex_after_cal23"
  by code_simp

lemma ex_second_run_cal23:
  "run ex_env_cal (ex_after_cal23\<lparr>properties := None\<rparr>) ex_dag =
     Inr (ex_after_cal23\<lparr>properties := None\<rparr>)"
  by code_simp

text \<open>
  When none of \<open>max_trials\<close>, \<open>call_limit\<close> and \<open>time_limit\<close> is set on entry, the
  loop runs with \<open>max_trials\<close> set to the larger of the two edge counts plus 15, and on
  graphs of different sizes the number of trials is the length of the stream, capped by
  that limit.
\<close>

lemma default_cap_on_entry:
  assumes cm: "coupling_map self = Some cm"
    and build: "build_interaction_graph e dag (strict_direction self) = Some result"
    and lv: "lv = make_locals e (cache_error_map e self cm) cm result"
    and self2: "self2 = default_max_trials (cache_error_map e self cm) (im_graph lv) cm"
    and unset: "max_trials self = None" "call_limit self = None" "time_limit self = None"
    and cap: "cap = max (int (length (edge_list (fst result))))
                        (int (length (edge_list (graph cm)))) + 15"
  shows "max_trials self2 = Some cap \<and>
         run e self dag = run e (self\<lparr>max_trials := Some cap\<rparr>) dag \<and>
         (\<forall>st. search e self2 lv search_init (engine_stream e self2 lv) = Inr st \<longrightarrow>
               num_nodes (cm_graph lv) \<noteq> num_nodes (im_graph lv) \<longrightarrow>
               trials st = min (length (engine_stream e self2 lv)) (nat cap))"
proof -
  have img: "im_graph lv = fst result"
    by (simp add: lv make_locals_def split: prod.splits)
  have mt: "max_trials self2 = Some cap"
    by (simp add: self2 default_max_trials_def cache_error_map_fields unset cap img)
  have tl: "time_limit self2 = None"
    by (simp add: self2 default_max_trials_fields cache_error_map_fields unset)
  let ?X = "cache_error_map e self cm"
  let ?s = "self\<lparr>max_trials := Some cap\<rparr>"
  have c1: "cache_error_map e ?s cm = ?X\<lparr>max_trials := Some cap\<rparr>"
    by (simp add: cache_error_map_def)
  have l1: "make_locals e (?X\<lparr>max_trials := Some cap\<rparr>) cm result = lv"
    by (simp add: lv make_locals_def)
  have d2: "self2 = ?X\<lparr>max_trials := Some cap\<rparr>"
    by (simp add: self2 default_max_trials_def cache_error_map_fields unset cap img)
  have d1: "default_max_trials (?X\<lparr>max_trials := Some cap\<rparr>) (im_graph lv) cm = self2"
    by (simp add: d2 default_max_trials_def)
  have "search_phase e (cache_error_map e ?s cm) cm dag result =
        search_phase e ?X cm dag result"
    unfolding search_phase_def Let_def c1 l1 d1 lv [symmetric] self2 [symmetric] ..
  moreover have "build_interaction_graph e dag (strict_direction ?s) = Some result"
    using build by simp
  moreover have "coupling_map ?s = Some cm" using cm by simp
  ultimately have same: "run e self dag = run e ?s dag"
    using run_search_phase [OF cm build] run_search_phase [of ?s cm e dag result] by simp
  have "trials st = min (length (engine_stream e self2 lv)) (nat cap)"
    if "search e self2 lv search_init (engine_stream e self2 lv) = Inr st"
      and "num_nodes (cm_graph lv) \<noteq> num_nodes (im_graph lv)" for st
    using search_trials_capped [OF that tl mt] by (simp add: search_init_def cap)
  with mt same show ?thesis by blast
qed


section \<open>The claims\<close>

text \<open>
  C4. When the interaction graph and the coupling graph have the same number of nodes
  and the engine yields at least one candidate, the first candidate \<open>m\<close> (whose layout
  is \<open>lay\<close>) is taken at once: the loop ends after one trial with \<open>lay\<close> as the chosen
  layout, without a score and without any call of the scorer, and \<open>run\<close> publishes
  \<open>lay\<close>, extended by the registers, with the reason \<open>SOLUTION_FOUND\<close>.
\<close>

theorem equal_size_first_accepted:
  assumes cm: "coupling_map self = Some cm"
    and build: "build_interaction_graph e dag (strict_direction self) = Some result"
    and lv: "lv = make_locals e (cache_error_map e self cm) cm result"
    and self2: "self2 = default_max_trials (cache_error_map e self cm) (im_graph lv) cm"
    and equal: "num_nodes (cm_graph lv) = num_nodes (im_graph lv)"
    and stream: "engine_stream e self2 lv = m # rest"
    and lay: "candidate_layout lv m = Inr lay"
  shows "search e self2 lv search_init (engine_stream e self2 lv) =
           Inr \<lparr>chosen_layout = Some lay, chosen_layout_score = None, trials = 1,
                stop_reason = Some SOLUTION_FOUND, score_calls = 0\<rparr> \<and>
         run e self dag =
           Inr (self2\<lparr>property_set := (property_set self)
                  \<lparr>layout := Some (foldl (add_register e) lay (map snd (qregs dag))),
                   VF2Layout_stop_reason := Some SOLUTION_FOUND\<rparr>\<rparr>)"
proof -
  have s: "search e self2 lv search_init (engine_stream e self2 lv) =
           Inr \<lparr>chosen_layout = Some lay, chosen_layout_score = None, trials = 1,
                stop_reason = Some SOLUTION_FOUND, score_calls = 0\<rparr>"
    unfolding stream using search_equal_first [OF equal lay] .
  have ps: "property_set self2 = property_set self"
    by (simp add: self2 default_max_trials_fields cache_error_map_fields)
  have "run e self dag = search_phase e (cache_error_map e self cm) cm dag result"
    using run_search_phase [OF cm build] .
  also have "\<dots> = publish e self2 dag
      \<lparr>chosen_layout = Some lay, chosen_layout_score = None, trials = 1,
       stop_reason = Some SOLUTION_FOUND, score_calls = 0\<rparr>"
    using s by (simp add: search_phase_def Let_def lv [symmetric] self2 [symmetric])
  also have "\<dots> = Inr (self2\<lparr>property_set := (property_set self)
                  \<lparr>layout := Some (foldl (add_register e) lay (map snd (qregs dag))),
                   VF2Layout_stop_reason := Some SOLUTION_FOUND\<rparr>\<rparr>)"
    by (simp add: publish_def ps)
  finally show ?thesis using s by simp
qed

theorem equal_size_first_accepted_witness:
  "search ex_env ((ex_pass ex_line3)\<lparr>max_trials := Some 17\<rparr>)
       (make_locals ex_env (ex_pass ex_line3) ex_line3 (ex_result False)) search_init
       [[(0, 0), (1, 1), (2, 2)], [(2, 0), (1, 1), (0, 2)]] =
     Inr \<lparr>chosen_layout = Some [(0, 0), (1, 1), (2, 2)], chosen_layout_score = None,
          trials = 1, stop_reason = Some SOLUTION_FOUND, score_calls = 0\<rparr> \<and>
   run ex_env (ex_pass ex_line3) ex_dag =
     Inr ((ex_pass ex_line3)\<lparr>max_trials := Some 17,
            property_set := \<lparr>layout = Some [(0, 0), (1, 1), (2, 2)],
                             VF2Layout_stop_reason = Some SOLUTION_FOUND\<rparr>\<rparr>)"
proof -
  let ?self = "ex_pass ex_line3"
  let ?lv = "make_locals ex_env ?self ex_line3 (ex_result False)"
  let ?self2 = "default_max_trials ?self (im_graph ?lv) ex_line3"
  have c: "cache_error_map ex_env ?self ex_line3 = ?self"
    by code_simp
  have cm: "coupling_map ?self = Some ex_line3" by (simp add: ex_pass_fields)
  have build: "build_interaction_graph ex_env ex_dag (strict_direction ?self) = Some (ex_result False)"
    by (simp add: ex_build ex_pass_fields)
  have equal: "num_nodes (cm_graph ?lv) = num_nodes (im_graph ?lv)"
    by code_simp
  have stream: "engine_stream ex_env ?self2 ?lv =
                [(0, 0), (1, 1), (2, 2)] # [[(2, 0), (1, 1), (0, 2)]]"
    by code_simp
  have lay: "candidate_layout ?lv [(0, 0), (1, 1), (2, 2)] = Inr [(0, 0), (1, 1), (2, 2)]"
    by code_simp
  have s2: "?self2 = ?self\<lparr>max_trials := Some 17\<rparr>"
    by code_simp
  have reg: "foldl (add_register ex_env) [(0, 0), (1, 1), (2, 2)] (map snd (qregs ex_dag)) =
             [(0, 0), (1, 1), (2, 2)]"
    by code_simp
  have ps: "property_set ?self = \<lparr>layout = None, VF2Layout_stop_reason = None\<rparr>"
    by (simp add: ex_pass_fields)
  note h = equal_size_first_accepted [of ?self ex_line3 ex_env ex_dag "ex_result False" ?lv ?self2
      "[(0, 0), (1, 1), (2, 2)]" "[[(2, 0), (1, 1), (0, 2)]]" "[(0, 0), (1, 1), (2, 2)]",
      unfolded c, OF cm build refl refl equal stream lay]
  from h [unfolded stream reg, unfolded s2 ps] show ?thesis
    by simp
qed

text \<open>
  C2. For a circuit with an operation on three or more qubits, on any device, \<open>run\<close>
  returns with the reason \<open>MORE_THAN_2Q\<close>. The instance it returns is the one after
  the error-map step with only the reason written: the layout key is as it was, and
  neither the shuffle, the engine, the scorer nor the clock enters the result. The
  builder of the interaction graph is the one modelled from its description.
\<close>

theorem more_than_2q_aborts:
  assumes cm: "coupling_map self = Some cm"
    and builder: "build_interaction_graph e = build_interaction_graph_spec"
    and big: "\<exists>qargs \<in> set (op_nodes dag). 3 \<le> length qargs"
  shows "run e self dag =
           Inr ((cache_error_map e self cm)\<lparr>property_set :=
                  (property_set self)\<lparr>VF2Layout_stop_reason := Some MORE_THAN_2Q\<rparr>\<rparr>)"
proof -
  have "build_interaction_graph e dag (strict_direction (cache_error_map e self cm)) = None"
    unfolding builder build_interaction_graph_spec_def using ig_walk_abort [OF big] .
  then show ?thesis
    by (simp add: run_def cm Let_def cache_error_map_fields)
qed

theorem more_than_2q_aborts_witness:
  "(\<exists>qargs \<in> set (op_nodes ex_dag_ccx). 3 \<le> length qargs) \<and>
   run ex_env (ex_pass ex_line4) ex_dag_ccx =
     Inr ((ex_pass ex_line4)\<lparr>property_set :=
            \<lparr>layout = None, VF2Layout_stop_reason = Some MORE_THAN_2Q\<rparr>\<rparr>)"
proof -
  have cm: "coupling_map (ex_pass ex_line4) = Some ex_line4" by (simp add: ex_pass_fields)
  have builder: "build_interaction_graph ex_env = build_interaction_graph_spec"
    by (simp add: ex_env_def)
  have big: "\<exists>qargs \<in> set (op_nodes ex_dag_ccx). 3 \<le> length qargs"
    by (simp add: ex_dag_ccx_def)
  have c: "cache_error_map ex_env (ex_pass ex_line4) ex_line4 = ex_pass ex_line4"
    by code_simp
  from more_than_2q_aborts [OF cm builder big] big show ?thesis
    by (simp add: c ex_pass_fields)
qed

text \<open>
  C3. In an invocation that enters the search phase, where the comprehension succeeds
  on every candidate of the stream, \<open>run\<close> returns, and the reason it writes is
  \<open>NO_SOLUTION_FOUND\<close> exactly when the stream is empty. With an empty stream the
  layout key is as it was before. With a non-empty stream the reason is
  \<open>SOLUTION_FOUND\<close> and the layout written is the best one of the stream, extended by
  the registers. The best one is the layout of a candidate of the stream: of the first
  candidate when the two graphs have the same number of nodes, and otherwise of the
  earliest candidate of lowest score among the trials made. The layout written keeps
  every entry of it and has an entry for every qubit of every register, given that
  \<open>add_register\<close> keeps entries and covers the register it is given.
\<close>

theorem stop_reason_and_layout_key:
  assumes cm: "coupling_map self = Some cm"
    and build: "build_interaction_graph e dag (strict_direction self) = Some result"
    and lv: "lv = make_locals e (cache_error_map e self cm) cm result"
    and self2: "self2 = default_max_trials (cache_error_map e self cm) (im_graph lv) cm"
    and ok: "\<forall>m \<in> set (engine_stream e self2 lv). \<not> isl (candidate_layout lv m)"
    and reg: "add_register_ok (add_register e)"
  shows "\<exists>self'. run e self dag = Inr self' \<and>
     (VF2Layout_stop_reason (property_set self') = Some NO_SOLUTION_FOUND \<longleftrightarrow>
        engine_stream e self2 lv = []) \<and>
     (engine_stream e self2 lv = [] \<longrightarrow>
        layout (property_set self') = layout (property_set self)) \<and>
     (engine_stream e self2 lv \<noteq> [] \<longrightarrow>
        VF2Layout_stop_reason (property_set self') = Some SOLUTION_FOUND \<and>
        (\<exists>st lay L. search e self2 lv search_init (engine_stream e self2 lv) = Inr st \<and>
           chosen_layout st = Some lay \<and>
           (\<exists>m \<in> set (engine_stream e self2 lv). candidate_layout lv m = Inr lay) \<and>
           (num_nodes (cm_graph lv) = num_nodes (im_graph lv) \<longrightarrow>
              (\<exists>m rest. engine_stream e self2 lv = m # rest \<and> candidate_layout lv m = Inr lay)) \<and>
           (num_nodes (cm_graph lv) \<noteq> num_nodes (im_graph lv) \<longrightarrow>
              (\<exists>pre m post.
                 take (trials st) (engine_stream e self2 lv) = pre @ m # post \<and>
                 candidate_layout lv m = Inr lay \<and>
                 (\<forall>m' \<in> set pre. \<forall>l'. candidate_layout lv m' = Inr l' \<longrightarrow>
                     layout_score_of e self2 lv lay < layout_score_of e self2 lv l') \<and>
                 (\<forall>m' \<in> set post. \<forall>l'. candidate_layout lv m' = Inr l' \<longrightarrow>
                     layout_score_of e self2 lv lay \<le> layout_score_of e self2 lv l'))) \<and>
           layout (property_set self') = Some L \<and>
           L = foldl (add_register e) lay (map snd (qregs dag)) \<and>
           (\<forall>q p. map_of lay q = Some p \<longrightarrow> map_of L q = Some p) \<and>
           (\<forall>reg \<in> set (map snd (qregs dag)). \<forall>q \<in> set reg. map_of L q \<noteq> None)))"
proof -
  let ?ms = "engine_stream e self2 lv"
  have ps: "property_set self2 = property_set self"
    by (simp add: self2 default_max_trials_fields cache_error_map_fields)
  have run: "run e self dag =
    (case search e self2 lv search_init ?ms of Inl err \<Rightarrow> Inl err | Inr st \<Rightarrow> publish e self2 dag st)"
    unfolding self2 lv using run_search_phase [OF cm build]
    by (simp add: search_phase_def Let_def)
  show ?thesis
  proof (cases ?ms)
    case Nil
    then have "run e self dag =
      Inr (self2\<lparr>property_set := (property_set self)\<lparr>VF2Layout_stop_reason := Some NO_SOLUTION_FOUND\<rparr>\<rparr>)"
      using run by (simp add: publish_def search_init_def ps)
    with Nil show ?thesis by simp
  next
    case (Cons m rest)
    have inv: "chosen_layout search_init = None \<longrightarrow> chosen_layout_score search_init = None"
      by (simp add: search_init_def)
    have "chosen_layout search_init \<noteq> None \<longrightarrow> chosen_layout_score search_init \<noteq> None"
      by (simp add: search_init_def)
    moreover have all: "\<forall>m \<in> set ?ms. \<exists>lay. candidate_layout lv m = Inr lay"
      using ok by (metis sum.collapse(2))
    ultimately obtain st where
      st: "search e self2 lv search_init ?ms = Inr st" using search_total by blast
    from search_nonempty_found [OF st [unfolded Cons]] obtain lay where
      lay: "chosen_layout st = Some lay" and sr: "stop_reason st = Some SOLUTION_FOUND"
      by auto
    have mem: "\<exists>m \<in> set ?ms. candidate_layout lv m = Inr lay"
      using search_chosen_from_stream [OF st] lay by (auto simp: search_init_def)
    have eq: "\<exists>m rest. ?ms = m # rest \<and> candidate_layout lv m = Inr lay"
      if same: "num_nodes (cm_graph lv) = num_nodes (im_graph lv)"
    proof -
      from all Cons obtain lay0 where lay0: "candidate_layout lv m = Inr lay0" by auto
      have a: "search e self2 lv search_init (m # rest) =
                 Inr \<lparr>chosen_layout = Some lay0, chosen_layout_score = None, trials = 1,
                      stop_reason = Some SOLUTION_FOUND, score_calls = 0\<rparr>"
        using search_equal_first [OF same lay0] .
      have b: "search e self2 lv search_init (m # rest) = Inr st"
        using st unfolding Cons .
      from a b have "st = \<lparr>chosen_layout = Some lay0, chosen_layout_score = None, trials = 1,
                      stop_reason = Some SOLUTION_FOUND, score_calls = 0\<rparr>"
        by (metis sum.inject(2))
      with lay have "lay = lay0" by simp
      with lay0 Cons show ?thesis by blast
    qed
    have uneq: "\<exists>pre m post.
         take (trials st) ?ms = pre @ m # post \<and> candidate_layout lv m = Inr lay \<and>
         (\<forall>m' \<in> set pre. \<forall>l'. candidate_layout lv m' = Inr l' \<longrightarrow>
             layout_score_of e self2 lv lay < layout_score_of e self2 lv l') \<and>
         (\<forall>m' \<in> set post. \<forall>l'. candidate_layout lv m' = Inr l' \<longrightarrow>
             layout_score_of e self2 lv lay \<le> layout_score_of e self2 lv l')"
      if diff: "num_nodes (cm_graph lv) \<noteq> num_nodes (im_graph lv)"
    proof -
      have ne: "?ms \<noteq> []" using Cons by simp
      from search_retains_earliest_best [OF st diff inv] ne lay show ?thesis
        by (auto simp: search_init_def)
    qed
    let ?L = "foldl (add_register e) lay (map snd (qregs dag))"
    have r: "run e self dag =
      Inr (self2\<lparr>property_set := (property_set self)
            \<lparr>layout := Some ?L, VF2Layout_stop_reason := Some SOLUTION_FOUND\<rparr>\<rparr>)"
      using run st publish_found [OF lay sr] by (simp add: ps)
    have keep: "\<forall>q p. map_of lay q = Some p \<longrightarrow> map_of ?L q = Some p"
      using map_of_add_registers_keep [OF reg] by blast
    have cover: "\<forall>reg \<in> set (map snd (qregs dag)). \<forall>q \<in> set reg. map_of ?L q \<noteq> None"
      using map_of_add_registers_cover [OF reg] by blast
    let ?self' = "self2\<lparr>property_set := (property_set self)
            \<lparr>layout := Some ?L, VF2Layout_stop_reason := Some SOLUTION_FOUND\<rparr>\<rparr>"
    have pub: "layout (property_set ?self') = Some ?L" by simp
    have res: "\<exists>st' lay' L'. search e self2 lv search_init ?ms = Inr st' \<and>
           chosen_layout st' = Some lay' \<and>
           (\<exists>m \<in> set ?ms. candidate_layout lv m = Inr lay') \<and>
           (num_nodes (cm_graph lv) = num_nodes (im_graph lv) \<longrightarrow>
              (\<exists>m rest. ?ms = m # rest \<and> candidate_layout lv m = Inr lay')) \<and>
           (num_nodes (cm_graph lv) \<noteq> num_nodes (im_graph lv) \<longrightarrow>
              (\<exists>pre m post.
                 take (trials st') ?ms = pre @ m # post \<and>
                 candidate_layout lv m = Inr lay' \<and>
                 (\<forall>m' \<in> set pre. \<forall>l'. candidate_layout lv m' = Inr l' \<longrightarrow>
                     layout_score_of e self2 lv lay' < layout_score_of e self2 lv l') \<and>
                 (\<forall>m' \<in> set post. \<forall>l'. candidate_layout lv m' = Inr l' \<longrightarrow>
                     layout_score_of e self2 lv lay' \<le> layout_score_of e self2 lv l'))) \<and>
           layout (property_set ?self') = Some L' \<and>
           L' = foldl (add_register e) lay' (map snd (qregs dag)) \<and>
           (\<forall>q p. map_of lay' q = Some p \<longrightarrow> map_of L' q = Some p) \<and>
           (\<forall>reg \<in> set (map snd (qregs dag)). \<forall>q \<in> set reg. map_of L' q \<noteq> None)"
      using st lay mem eq uneq pub keep cover by blast
    have ne: "?ms \<noteq> []" using Cons by simp
    show ?thesis
      apply (rule exI [of _ ?self'])
      using res ne r by simp
  qed
qed

theorem stop_reason_and_layout_key_witness:
  "engine_stream ex_env ex_pass_one ex_locals4 =
     [[(1, 0), (2, 1), (3, 2)], [(0, 0), (1, 1), (2, 2)],
      [(2, 0), (1, 1), (0, 2)], [(3, 0), (2, 1), (1, 2)]] \<and>
   candidate_layout ex_locals4 [(1, 0), (2, 1), (3, 2)] = Inr [(0, 1), (1, 2), (2, 3)] \<and>
   run ex_env ex_pass_one ex_dag4 =
     Inr (ex_pass_one\<lparr>property_set :=
            \<lparr>layout = Some [(0, 1), (1, 2), (2, 3), (3, 0)],
             VF2Layout_stop_reason = Some SOLUTION_FOUND\<rparr>\<rparr>) \<and>
   (\<exists>self' st lay. run ex_env ex_pass_one ex_dag4 = Inr self' \<and>
      VF2Layout_stop_reason (property_set self') = Some SOLUTION_FOUND \<and>
      search ex_env ex_pass_one ex_locals4 search_init
        (engine_stream ex_env ex_pass_one ex_locals4) = Inr st \<and>
      chosen_layout st = Some lay \<and>
      (\<exists>m \<in> set (engine_stream ex_env ex_pass_one ex_locals4).
          candidate_layout ex_locals4 m = Inr lay) \<and>
      layout (property_set self') = Some (foldl (add_register ex_env) lay [[0, 1, 2, 3]])) \<and>
   engine_stream ex_env ((ex_pass ex_line2)\<lparr>max_trials := Some 17\<rparr>)
     (make_locals ex_env (ex_pass ex_line2) ex_line2 (ex_result False)) = [] \<and>
   run ex_env (ex_pass ex_line2) ex_dag =
     Inr ((ex_pass ex_line2)\<lparr>max_trials := Some 17, property_set :=
            \<lparr>layout = None, VF2Layout_stop_reason = Some NO_SOLUTION_FOUND\<rparr>\<rparr>) \<and>
   (\<exists>self'. run ex_env (ex_pass ex_line2) ex_dag = Inr self' \<and>
      VF2Layout_stop_reason (property_set self') = Some NO_SOLUTION_FOUND \<and>
      layout (property_set self') = layout (property_set (ex_pass ex_line2)))"
proof -
  have reg: "add_register_ok (add_register ex_env)"
    using add_register_spec_ok by (simp add: ex_env_def)
  have c1: "cache_error_map ex_env ex_pass_one ex_line4 = ex_pass_one" by code_simp
  have l1: "make_locals ex_env ex_pass_one ex_line4 (ex_result False) = ex_locals4"
    by (simp add: ex_locals4_def make_locals_def ex_pass_one_def ex_pass_fields)
  have d1: "default_max_trials ex_pass_one (im_graph ex_locals4) ex_line4 = ex_pass_one"
    by (simp add: default_max_trials_def ex_pass_one_def)
  have cm1: "coupling_map ex_pass_one = Some ex_line4"
    by (simp add: ex_pass_one_def ex_pass_fields)
  have build1: "build_interaction_graph ex_env ex_dag4 (strict_direction ex_pass_one) =
                Some (ex_result False)"
    by (simp add: ex_build4 ex_pass_one_def ex_pass_fields)
  have s1: "engine_stream ex_env ex_pass_one ex_locals4 =
     [[(1, 0), (2, 1), (3, 2)], [(0, 0), (1, 1), (2, 2)],
      [(2, 0), (1, 1), (0, 2)], [(3, 0), (2, 1), (1, 2)]]"
    by code_simp
  have ok1: "\<forall>m \<in> set (engine_stream ex_env ex_pass_one ex_locals4).
               \<not> isl (candidate_layout ex_locals4 m)"
    by code_simp
  have ne1: "engine_stream ex_env ex_pass_one ex_locals4 \<noteq> []" unfolding s1 by simp
  have k1: "candidate_layout ex_locals4 [(1, 0), (2, 1), (3, 2)] = Inr [(0, 1), (1, 2), (2, 3)]"
    by code_simp
  have r1: "run ex_env ex_pass_one ex_dag4 =
     Inr (ex_pass_one\<lparr>property_set :=
            \<lparr>layout = Some [(0, 1), (1, 2), (2, 3), (3, 0)],
             VF2Layout_stop_reason = Some SOLUTION_FOUND\<rparr>\<rparr>)"
    by code_simp
  have regs4: "map snd (qregs ex_dag4) = [[0, 1, 2, 3]]" by (simp add: ex_dag4_def)
  note h1 = stop_reason_and_layout_key
    [of ex_pass_one ex_line4 ex_env ex_dag4 "ex_result False" ex_locals4 ex_pass_one,
     unfolded c1 l1 d1, OF cm1 build1 refl refl ok1 reg]
  have first: "\<exists>self' st lay. run ex_env ex_pass_one ex_dag4 = Inr self' \<and>
      VF2Layout_stop_reason (property_set self') = Some SOLUTION_FOUND \<and>
      search ex_env ex_pass_one ex_locals4 search_init
        (engine_stream ex_env ex_pass_one ex_locals4) = Inr st \<and>
      chosen_layout st = Some lay \<and>
      (\<exists>m \<in> set (engine_stream ex_env ex_pass_one ex_locals4).
          candidate_layout ex_locals4 m = Inr lay) \<and>
      layout (property_set self') = Some (foldl (add_register ex_env) lay [[0, 1, 2, 3]])"
    using h1 ne1 unfolding regs4 by blast
  let ?p2 = "ex_pass ex_line2"
  let ?lv2 = "make_locals ex_env (cache_error_map ex_env ?p2 ex_line2) ex_line2 (ex_result False)"
  let ?s2 = "default_max_trials (cache_error_map ex_env ?p2 ex_line2) (im_graph ?lv2) ex_line2"
  have cm2: "coupling_map ?p2 = Some ex_line2" by (simp add: ex_pass_fields)
  have build2: "build_interaction_graph ex_env ex_dag (strict_direction ?p2) =
                Some (ex_result False)"
    by (simp add: ex_build ex_pass_fields)
  have ok2: "\<forall>m \<in> set (engine_stream ex_env ?s2 ?lv2). \<not> isl (candidate_layout ?lv2 m)"
    by code_simp
  have e2: "engine_stream ex_env ?s2 ?lv2 = []" by code_simp
  have e2': "engine_stream ex_env (?p2\<lparr>max_trials := Some 17\<rparr>)
     (make_locals ex_env ?p2 ex_line2 (ex_result False)) = []"
    by code_simp
  have r2: "run ex_env ?p2 ex_dag =
     Inr (?p2\<lparr>max_trials := Some 17, property_set :=
            \<lparr>layout = None, VF2Layout_stop_reason = Some NO_SOLUTION_FOUND\<rparr>\<rparr>)"
    by code_simp
  have second: "\<exists>self'. run ex_env ?p2 ex_dag = Inr self' \<and>
      VF2Layout_stop_reason (property_set self') = Some NO_SOLUTION_FOUND \<and>
      layout (property_set self') = layout (property_set ?p2)"
    using stop_reason_and_layout_key [OF cm2 build2 refl refl ok2 reg] e2
    by simp
  from s1 k1 r1 first e2' r2 second show ?thesis by blast
qed


text \<open>
  C7, evaluated. The claim is that the budget fields of the instance are the same after
  \<open>run\<close> as before. On a pass with no limit configured, the run on the example
  circuit leaves \<open>max_trials = Some 18\<close> in the instance; the next run of that
  instance, on a circuit for which the default is 20, keeps 18, where a fresh pass
  gets 20.
\<close>

theorem max_trials_carried_over:
  "max_trials (ex_pass ex_line4) = None \<and>
   run ex_env (ex_pass ex_line4) ex_dag =
     Inr ((ex_pass ex_line4)\<lparr>max_trials := Some 18, property_set := ex_found\<rparr>) \<and>
   run ex_env ((ex_pass ex_line4)\<lparr>max_trials := Some 18, property_set := ex_found\<rparr>) ex_dag_big =
     Inr ((ex_pass ex_line4)\<lparr>max_trials := Some 18,
            property_set := ex_found\<lparr>VF2Layout_stop_reason := Some NO_SOLUTION_FOUND\<rparr>\<rparr>) \<and>
   run ex_env (ex_pass ex_line4) ex_dag_big =
     Inr ((ex_pass ex_line4)\<lparr>max_trials := Some 20,
            property_set := \<lparr>layout = None, VF2Layout_stop_reason = Some NO_SOLUTION_FOUND\<rparr>\<rparr>)"
  by code_simp

text \<open>
  C8, as stated, fails: the calibration data is replaced between two runs of one
  instance and the second run keeps the error map of the first, although the builder
  gives a different map on the new data.
\<close>

theorem error_map_not_recomputed:
  "run ex_env ex_pass_cal ex_dag = Inr ex_after_cal \<and>
   run ex_env (ex_after_cal\<lparr>properties := Some ex_cal2\<rparr>) ex_dag =
     Inr (ex_after_cal\<lparr>properties := Some ex_cal2\<rparr>) \<and>
   avg_error_map (ex_after_cal\<lparr>properties := Some ex_cal2\<rparr>) = Some ex_cal1 \<and>
   build_average_error_map ex_env (target ex_after_cal) (Some ex_cal2) ex_line4 = Some ex_cal2 \<and>
   ex_cal2 \<noteq> ex_cal1"
proof -
  have "avg_error_map (ex_after_cal\<lparr>properties := Some ex_cal2\<rparr>) = Some ex_cal1"
    by (simp add: ex_after_cal_def)
  moreover have "build_average_error_map ex_env (target ex_after_cal) (Some ex_cal2) ex_line4 =
                 Some ex_cal2"
    by (simp add: ex_env_def ex_after_cal_def ex_pass_fields)
  moreover have "ex_cal2 \<noteq> ex_cal1" by (simp add: ex_cal1_def ex_cal2_def)
  ultimately show ?thesis using ex_first_run_cal ex_second_run_cal by simp
qed

text \<open>
  C8, amended. A run that returns leaves in the instance the error map it held on
  entry, whatever the target, the properties and the coupling map are by then; when it
  held none, it leaves what the builder gives on the instance's target, properties and
  coupling map. That map is the one the run hands to the scorer: the run gives the same
  result with any scorer that agrees with the given one on that map.
\<close>

theorem error_map_built_once:
  assumes cm: "coupling_map self = Some cm" and ret: "run e self dag = Inr self'"
  shows "avg_error_map self' =
           (case avg_error_map self of
              None \<Rightarrow> build_average_error_map e (target self) (properties self) cm
            | Some em \<Rightarrow> Some em) \<and>
         (\<forall>f. f (avg_error_map self') = score_layout e (avg_error_map self') \<longrightarrow>
              run (e\<lparr>score_layout := f\<rparr>) self dag = Inr self')"
proof -
  from run_instance [OF cm ret]
  have a: "avg_error_map self' = avg_error_map (cache_error_map e self cm)" by simp
  have b: "avg_error_map (cache_error_map e self cm) =
           (case avg_error_map self of
              None \<Rightarrow> build_average_error_map e (target self) (properties self) cm
            | Some em \<Rightarrow> Some em)"
    by (simp add: cache_error_map_def split: option.splits)
  have "run (e\<lparr>score_layout := f\<rparr>) self dag = Inr self'"
    if f: "f (avg_error_map self') = score_layout e (avg_error_map self')" for f
  proof -
    let ?e = "e\<lparr>score_layout := f\<rparr>"
    let ?X = "cache_error_map e self cm"
    have c: "cache_error_map ?e self cm = ?X" by (simp add: cache_error_map_def)
    show ?thesis
    proof (cases "build_interaction_graph e dag (strict_direction self)")
      case None
      with cm ret show ?thesis by (simp add: run_def Let_def c cache_error_map_fields)
    next
      case build: (Some result)
      let ?lv = "make_locals e ?X cm result"
      let ?self2 = "default_max_trials ?X (im_graph ?lv) cm"
      have l: "make_locals ?e ?X cm result = ?lv" by (simp add: make_locals_def)
      have es: "engine_stream ?e ?self2 ?lv = engine_stream e ?self2 ?lv"
        by (simp add: engine_stream_def)
      have em: "avg_error_map ?self2 = avg_error_map self'"
        by (simp add: a default_max_trials_fields)
      have sc: "\<And>lay. layout_score_of ?e ?self2 ?lv lay = layout_score_of e ?self2 ?lv lay"
        by (simp add: layout_score_of_def em f)
      have "search_phase ?e ?X cm dag result = search_phase e ?X cm dag result"
        by (simp add: search_phase_def Let_def l es publish_scorer search_scorer [OF sc]
            cong: sum.case_cong)
      moreover have "build_interaction_graph ?e dag (strict_direction self) = Some result"
        using build by simp
      ultimately show ?thesis
        using run_search_phase [OF cm build] run_search_phase [OF cm, of ?e dag result] ret
        by (simp add: c)
    qed
  qed
  with a b show ?thesis by simp
qed

theorem error_map_built_once_witness:
  "run ex_env_cal ex_pass_cal23 ex_dag = Inr ex_after_cal23 \<and>
   avg_error_map ex_after_cal23 =
     build_average_error_map ex_env_cal (target ex_pass_cal23) (properties ex_pass_cal23) ex_line4 \<and>
   run ex_env_cal (ex_after_cal23\<lparr>properties := None\<rparr>) ex_dag =
     Inr (ex_after_cal23\<lparr>properties := None\<rparr>) \<and>
   avg_error_map (ex_after_cal23\<lparr>properties := None\<rparr>) = Some ex_cal23 \<and>
   layout (property_set (ex_after_cal23\<lparr>properties := None\<rparr>)) = Some [(0, 0), (1, 1), (2, 2)] \<and>
   run ex_env_cal_stored (ex_after_cal23\<lparr>properties := None\<rparr>) ex_dag =
     Inr (ex_after_cal23\<lparr>properties := None\<rparr>) \<and>
   run ex_env_cal ((ex_pass ex_line4)\<lparr>max_trials := Some 18\<rparr>) ex_dag =
     Inr ((ex_pass ex_line4)\<lparr>max_trials := Some 18, property_set :=
            \<lparr>layout = Some [(0, 1), (1, 2), (2, 3)],
             VF2Layout_stop_reason = Some SOLUTION_FOUND\<rparr>\<rparr>)"
proof -
  let ?later = "ex_after_cal23\<lparr>properties := None\<rparr>"
  have cm1: "coupling_map ex_pass_cal23 = Some ex_line4"
    by (simp add: ex_pass_cal23_def ex_pass_fields)
  have cm2: "coupling_map ?later = Some ex_line4"
    by (simp add: ex_after_cal23_def ex_pass_fields)
  have held: "avg_error_map ex_pass_cal23 = None" "avg_error_map ?later = Some ex_cal23"
    by (simp_all add: ex_pass_cal23_def ex_after_cal23_def ex_pass_fields)
  have lay: "layout (property_set ?later) = Some [(0, 0), (1, 1), (2, 2)]"
    by (simp add: ex_after_cal23_def ex_found_def)
  have sc: "score_layout ex_env_cal = ex_score_cal" by (simp add: ex_env_cal_def)
  have none: "run ex_env_cal ((ex_pass ex_line4)\<lparr>max_trials := Some 18\<rparr>) ex_dag =
     Inr ((ex_pass ex_line4)\<lparr>max_trials := Some 18, property_set :=
            \<lparr>layout = Some [(0, 1), (1, 2), (2, 3)],
             VF2Layout_stop_reason = Some SOLUTION_FOUND\<rparr>\<rparr>)"
    by code_simp
  from error_map_built_once [OF cm1 ex_first_run_cal23]
  have a: "avg_error_map ex_after_cal23 =
     build_average_error_map ex_env_cal (target ex_pass_cal23) (properties ex_pass_cal23) ex_line4"
    by (simp add: held)
  from error_map_built_once [OF cm2 ex_second_run_cal23]
  have b: "avg_error_map ?later = Some ex_cal23"
    and c: "run ex_env_cal_stored ?later ex_dag = Inr ?later"
    by (simp_all add: held sc ex_env_cal_stored_def)
  from ex_first_run_cal23 a ex_second_run_cal23 b lay c none show ?thesis by simp
qed

text \<open>
  C9, as stated, fails: with the same seed, circuit, device and limits, and an
  environment that differs in the readings of the clock only, a pass with a time limit
  stops after the first trial in one run and tries every candidate in the other, and
  the two runs publish different layouts.
\<close>

theorem clock_changes_result:
  "ex_env_fast\<lparr>time_time := time_time ex_env\<rparr> = ex_env \<and>
   time_limit ex_pass_timed = Some 1 \<and>
   run ex_env ex_pass_timed ex_dag =
     Inr (ex_pass_timed\<lparr>property_set :=
            \<lparr>layout = Some [(0, 1), (1, 2), (2, 3)],
             VF2Layout_stop_reason = Some SOLUTION_FOUND\<rparr>\<rparr>) \<and>
   run ex_env_fast ex_pass_timed ex_dag =
     Inr (ex_pass_timed\<lparr>property_set :=
            \<lparr>layout = Some [(0, 0), (1, 1), (2, 2)],
             VF2Layout_stop_reason = Some SOLUTION_FOUND\<rparr>\<rparr>) \<and>
   run ex_env ex_pass_timed ex_dag \<noteq> run ex_env_fast ex_pass_timed ex_dag"
proof -
  have a: "ex_env_fast\<lparr>time_time := time_time ex_env\<rparr> = ex_env"
    by (simp add: ex_env_fast_def ex_env_def)
  have b: "time_limit ex_pass_timed = Some 1" by (simp add: ex_pass_timed_def)
  have c: "run ex_env ex_pass_timed ex_dag =
     Inr (ex_pass_timed\<lparr>property_set :=
            \<lparr>layout = Some [(0, 1), (1, 2), (2, 3)],
             VF2Layout_stop_reason = Some SOLUTION_FOUND\<rparr>\<rparr>)"
    by code_simp
  have d: "run ex_env_fast ex_pass_timed ex_dag =
     Inr (ex_pass_timed\<lparr>property_set :=
            \<lparr>layout = Some [(0, 0), (1, 1), (2, 2)],
             VF2Layout_stop_reason = Some SOLUTION_FOUND\<rparr>\<rparr>)"
    by code_simp
  have "run ex_env ex_pass_timed ex_dag \<noteq> run ex_env_fast ex_pass_timed ex_dag"
    unfolding c d by (simp add: ex_pass_timed_def ex_pass_def init_def)
  with a b c d show ?thesis by simp
qed

text \<open>
  C9, amended. With no time limit configured, two runs on the same instance and
  circuit, in environments that differ in the readings of the clock only (every other
  collaborator, the shuffle for the seed and the engine included, being the same
  function of its inputs), give the same result: the same layout and stop reason, or
  the same error.
\<close>

theorem same_result_without_time_limit:
  assumes "time_limit self = None"
  shows "run (e\<lparr>time_time := c1\<rparr>) self dag = run (e\<lparr>time_time := c2\<rparr>) self dag"
proof -
  have "run (e\<lparr>time_time := c\<rparr>) self dag = run e self dag" for c
  proof (cases "coupling_map self")
    case None
    then show ?thesis by (simp add: run_def)
  next
    case (Some cm)
    let ?e = "e\<lparr>time_time := c\<rparr>"
    have c: "cache_error_map ?e self cm = cache_error_map e self cm"
      by (simp add: cache_error_map_def)
    show ?thesis
    proof (cases "build_interaction_graph e dag (strict_direction self)")
      case None
      with Some show ?thesis by (simp add: run_def Let_def c cache_error_map_fields)
    next
      case build: (Some result)
      let ?X = "cache_error_map e self cm"
      let ?lv = "make_locals e ?X cm result"
      let ?self2 = "default_max_trials ?X (im_graph ?lv) cm"
      have l: "make_locals ?e ?X cm result = ?lv\<lparr>start_time := c 0\<rparr>"
        by (simp add: make_locals_def split: prod.splits)
      have tl: "time_limit ?self2 = None"
        using assms by (simp add: default_max_trials_fields cache_error_map_fields)
      have es: "engine_stream ?e ?self2 (?lv\<lparr>start_time := c 0\<rparr>) = engine_stream e ?self2 ?lv"
        by (simp add: engine_stream_def)
      have "search_phase ?e ?X cm dag result = search_phase e ?X cm dag result"
        by (simp add: search_phase_def Let_def l es publish_clock search_without_time_limit [OF tl]
            cong: sum.case_cong)
      moreover have "build_interaction_graph ?e dag (strict_direction self) = Some result"
        using build by simp
      ultimately show ?thesis
        using run_search_phase [OF Some build] run_search_phase [OF Some, of ?e dag result]
        by (simp add: c)
    qed
  qed
  then show ?thesis by simp
qed


theorem same_result_without_time_limit_witness:
  "time_limit (ex_pass ex_line4) = None \<and>
   run ex_env (ex_pass ex_line4) ex_dag = run ex_env_fast (ex_pass ex_line4) ex_dag"
proof -
  have tl: "time_limit (ex_pass ex_line4) = None" by (simp add: ex_pass_fields)
  have a: "ex_env\<lparr>time_time := time_time ex_env\<rparr> = ex_env" by simp
  have b: "ex_env\<lparr>time_time := (\<lambda>k. 0)\<rparr> = ex_env_fast" by (simp add: ex_env_fast_def)
  from same_result_without_time_limit [OF tl, where e = ex_env and ?c1.0 = "time_time ex_env"
      and dag = ex_dag and ?c2.0 = "\<lambda>k. 0"]
  show ?thesis unfolding a b using tl by simp
qed

text \<open>
  C10, as stated, fails: \<open>max_trials = 0\<close> means no limit, so raising it from 0 to 1
  cuts the search after the first trial. On the example the chosen score goes from 3
  to 6, and \<open>run\<close> publishes a different layout.
\<close>

theorem one_trial_worse_than_unlimited:
  "(0::int) < 1 \<and>
   ex_stream4 = [[(1, 0), (2, 1), (3, 2)], [(0, 0), (1, 1), (2, 2)],
                 [(2, 0), (1, 1), (0, 2)], [(3, 0), (2, 1), (1, 2)]] \<and>
   search ex_env ((ex_pass ex_line4)\<lparr>max_trials := Some 0\<rparr>) ex_locals4 search_init ex_stream4 =
     Inr \<lparr>chosen_layout = Some [(0, 0), (1, 1), (2, 2)], chosen_layout_score = Some 3,
          trials = 4, stop_reason = Some SOLUTION_FOUND, score_calls = 4\<rparr> \<and>
   search ex_env ((ex_pass ex_line4)\<lparr>max_trials := Some 1\<rparr>) ex_locals4 search_init ex_stream4 =
     Inr \<lparr>chosen_layout = Some [(0, 1), (1, 2), (2, 3)], chosen_layout_score = Some 6,
          trials = 1, stop_reason = Some SOLUTION_FOUND, score_calls = 1\<rparr> \<and>
   (3::real) < 6 \<and>
   run ex_env ((ex_pass ex_line4)\<lparr>max_trials := Some 0\<rparr>) ex_dag =
     Inr ((ex_pass ex_line4)\<lparr>max_trials := Some 0, property_set :=
            \<lparr>layout = Some [(0, 0), (1, 1), (2, 2)],
             VF2Layout_stop_reason = Some SOLUTION_FOUND\<rparr>\<rparr>) \<and>
   run ex_env ((ex_pass ex_line4)\<lparr>max_trials := Some 1\<rparr>) ex_dag =
     Inr ((ex_pass ex_line4)\<lparr>max_trials := Some 1, property_set :=
            \<lparr>layout = Some [(0, 1), (1, 2), (2, 3)],
             VF2Layout_stop_reason = Some SOLUTION_FOUND\<rparr>\<rparr>)"
proof -
  have s: "ex_stream4 = [[(1, 0), (2, 1), (3, 2)], [(0, 0), (1, 1), (2, 2)],
                 [(2, 0), (1, 1), (0, 2)], [(3, 0), (2, 1), (1, 2)]]"
    by code_simp
  have r0: "run ex_env ((ex_pass ex_line4)\<lparr>max_trials := Some 0\<rparr>) ex_dag =
     Inr ((ex_pass ex_line4)\<lparr>max_trials := Some 0, property_set :=
            \<lparr>layout = Some [(0, 0), (1, 1), (2, 2)],
             VF2Layout_stop_reason = Some SOLUTION_FOUND\<rparr>\<rparr>)"
    by code_simp
  have r1: "run ex_env ((ex_pass ex_line4)\<lparr>max_trials := Some 1\<rparr>) ex_dag =
     Inr ((ex_pass ex_line4)\<lparr>max_trials := Some 1, property_set :=
            \<lparr>layout = Some [(0, 1), (1, 2), (2, 3)],
             VF2Layout_stop_reason = Some SOLUTION_FOUND\<rparr>\<rparr>)"
    by code_simp
  from s r0 r1 ex_search_unlimited ex_search_one show ?thesis by simp
qed

text \<open>
  C10, amended. For the same instance otherwise, the same locals and the same stream:
  when the loop returns for both limits, and either \<open>0 < m1 \<le> m2\<close> or \<open>m2 \<le> 0\<close>
  (no limit), the loop with \<open>m2\<close> retains a layout iff the loop with \<open>m1\<close> does, and
  the score of the layout retained with \<open>m2\<close> is at most the score of the one retained
  with \<open>m1\<close>. In \<open>run\<close> the loop is called with \<open>self\<close> after the error-map step,
  and neither the locals nor the stream depend on \<open>max_trials\<close>.
\<close>

theorem more_trials_never_worse:
  assumes order: "(0 < m1 \<and> m1 \<le> m2) \<or> m2 \<le> 0"
    and r1: "search e (self\<lparr>max_trials := Some m1\<rparr>) lv search_init ms = Inr st1"
    and r2: "search e (self\<lparr>max_trials := Some m2\<rparr>) lv search_init ms = Inr st2"
  shows "(chosen_layout st1 = None \<longleftrightarrow> chosen_layout st2 = None) \<and>
         (\<forall>l1 l2. chosen_layout st1 = Some l1 \<longrightarrow> chosen_layout st2 = Some l2 \<longrightarrow>
            layout_score_of e self lv l2 \<le> layout_score_of e self lv l1)"
proof -
  let ?s1 = "self\<lparr>max_trials := Some m1\<rparr>" and ?s2 = "self\<lparr>max_trials := Some m2\<rparr>"
  have less: "\<And>st. max_trials_reached ?s2 st \<Longrightarrow> max_trials_reached ?s1 st"
    using order by (auto simp: max_trials_reached_def)
  have init: "scored e ?s1 lv search_init" by (simp add: scored_def search_init_def)
  have sc: "\<And>lay. layout_score_of e ?s1 lv lay = layout_score_of e self lv lay"
    by (simp add: layout_score_of_def)
  from search_more_trials [of ?s2 ?s1, OF less _ _ _ r1 r2 init] show ?thesis
    by (simp add: sc)
qed


theorem more_trials_never_worse_witness:
  "(0::int) < 1 \<and> (1::int) \<le> 2 \<and>
   layout_score_of ex_env (ex_pass ex_line4) ex_locals4 [(0, 0), (1, 1), (2, 2)]
     \<le> layout_score_of ex_env (ex_pass ex_line4) ex_locals4 [(0, 1), (1, 2), (2, 3)]"
proof -
  have order: "((0::int) < 1 \<and> (1::int) \<le> 2) \<or> (2::int) \<le> 0" by simp
  from more_trials_never_worse [OF order ex_search_one ex_search_two]
  show ?thesis by simp
qed

text \<open>
  C5. On graphs of different sizes, when the loop returns on a non-empty stream, the
  trials it made split into the candidates before the retained one, the retained one
  and those after it: the retained layout and score are those of that candidate, every
  earlier candidate has a strictly higher score (so it was the first candidate or
  strictly better than the best so far), and every later one has a score at least as
  high (so a later candidate with the same score did not replace it).
\<close>

theorem earliest_lowest_score_retained:
  assumes unequal: "num_nodes (cm_graph lv) \<noteq> num_nodes (im_graph lv)"
    and r: "search e self lv search_init ms = Inr st"
    and ne: "ms \<noteq> []"
  shows "\<exists>pre m post lay.
           take (trials st) ms = pre @ m # post \<and> candidate_layout lv m = Inr lay \<and>
           chosen_layout st = Some lay \<and>
           chosen_layout_score st = Some (layout_score_of e self lv lay) \<and>
           (\<forall>m' \<in> set pre. \<forall>l'. candidate_layout lv m' = Inr l' \<longrightarrow>
               layout_score_of e self lv lay < layout_score_of e self lv l') \<and>
           (\<forall>m' \<in> set post. \<forall>l'. candidate_layout lv m' = Inr l' \<longrightarrow>
               layout_score_of e self lv lay \<le> layout_score_of e self lv l')"
proof -
  have inv: "chosen_layout search_init = None \<longrightarrow> chosen_layout_score search_init = None"
    by (simp add: search_init_def)
  from search_retains_earliest_best [OF r unequal inv] ne show ?thesis
    by (auto simp: search_init_def)
qed

theorem earliest_lowest_score_retained_witness:
  "num_nodes (cm_graph ex_locals4) \<noteq> num_nodes (im_graph ex_locals4) \<and>
   ex_stream4 = [[(1, 0), (2, 1), (3, 2)], [(0, 0), (1, 1), (2, 2)],
                 [(2, 0), (1, 1), (0, 2)], [(3, 0), (2, 1), (1, 2)]] \<and>
   map (\<lambda>m. map_sum id (layout_score_of ex_env (ex_pass ex_line4) ex_locals4)
               (candidate_layout ex_locals4 m)) ex_stream4 = [Inr 6, Inr 3, Inr 3, Inr 6] \<and>
   (\<exists>pre m post lay.
      take 4 ex_stream4 = pre @ m # post \<and> candidate_layout ex_locals4 m = Inr lay \<and>
      [(0, 0), (1, 1), (2, 2)] = lay \<and>
      (3::real) = layout_score_of ex_env ((ex_pass ex_line4)\<lparr>max_trials := Some 0\<rparr>) ex_locals4 lay \<and>
      (\<forall>m' \<in> set pre. \<forall>l'. candidate_layout ex_locals4 m' = Inr l' \<longrightarrow>
          layout_score_of ex_env ((ex_pass ex_line4)\<lparr>max_trials := Some 0\<rparr>) ex_locals4 lay
          < layout_score_of ex_env ((ex_pass ex_line4)\<lparr>max_trials := Some 0\<rparr>) ex_locals4 l') \<and>
      (\<forall>m' \<in> set post. \<forall>l'. candidate_layout ex_locals4 m' = Inr l' \<longrightarrow>
          layout_score_of ex_env ((ex_pass ex_line4)\<lparr>max_trials := Some 0\<rparr>) ex_locals4 lay
          \<le> layout_score_of ex_env ((ex_pass ex_line4)\<lparr>max_trials := Some 0\<rparr>) ex_locals4 l'))"
proof -
  have unequal: "num_nodes (cm_graph ex_locals4) \<noteq> num_nodes (im_graph ex_locals4)"
    by code_simp
  have s: "ex_stream4 = [[(1, 0), (2, 1), (3, 2)], [(0, 0), (1, 1), (2, 2)],
                 [(2, 0), (1, 1), (0, 2)], [(3, 0), (2, 1), (1, 2)]]"
    by code_simp
  have sc: "map (\<lambda>m. map_sum id (layout_score_of ex_env (ex_pass ex_line4) ex_locals4)
               (candidate_layout ex_locals4 m)) ex_stream4 = [Inr 6, Inr 3, Inr 3, Inr 6]"
    by code_simp
  have ne: "ex_stream4 \<noteq> []" unfolding s by simp
  from earliest_lowest_score_retained [OF unequal ex_search_unlimited ne] unequal s sc
  show ?thesis by simp
qed

text \<open>
  C1. Let the builder give an interaction graph whose inverse node map names a
  different qubit for every node, let the shuffle give a relabelled graph whose table
  \<open>cm_nodes\<close> takes its edges back to couplings of the device, and let the engine
  yield embeddings only, and at least one when there is one. If the interaction graph
  embeds in the relabelled coupling graph, \<open>run\<close> returns with the reason
  \<open>SOLUTION_FOUND\<close> and a layout that sends every edge of the interaction graph to a
  coupling of the device, in the direction of the coupling when \<open>strict_direction\<close>
  is set, given that \<open>add_register\<close> keeps the entries of the layout.
\<close>

theorem embeddable_circuit_gets_valid_layout:
  assumes cm: "coupling_map self = Some cm"
    and build: "build_interaction_graph e dag (strict_direction self) = Some (img, nm, rnm)"
    and ig: "interaction_graph_ok (img, nm, rnm) (strict_direction self)"
    and shuffle: "shuffle_coupling_graph e cm (seed self) (strict_direction self) = (cmg, cmn)"
    and cv: "coupling_view_ok cm (strict_direction self) (cmg, cmn)"
    and sound: "\<forall>m \<in> set (vf2_mapping e cmg img (call_limit self)). is_embedding cmg img m"
    and complete: "(\<exists>m. is_embedding cmg img m) \<longrightarrow> vf2_mapping e cmg img (call_limit self) \<noteq> []"
    and embeddable: "\<exists>m. is_embedding cmg img m"
    and reg: "add_register_ok (add_register e)"
  shows "\<exists>self' L. run e self dag = Inr self' \<and>
           VF2Layout_stop_reason (property_set self') = Some SOLUTION_FOUND \<and>
           layout (property_set self') = Some L \<and>
           layout_respects L img rnm cm (strict_direction self)"
proof -
  let ?X = "cache_error_map e self cm"
  let ?lv = "make_locals e ?X cm (img, nm, rnm)"
  let ?self2 = "default_max_trials ?X (im_graph ?lv) cm"
  let ?ms = "engine_stream e ?self2 ?lv"
  have lv: "im_graph ?lv = img" "cm_graph ?lv = cmg" "cm_nodes ?lv = cmn"
    "reverse_im_graph_node_map ?lv = rnm"
    using shuffle by (simp_all add: make_locals_def cache_error_map_fields)
  have ms: "?ms = vf2_mapping e cmg img (call_limit self)"
    by (simp add: engine_stream_def lv default_max_trials_fields cache_error_map_fields)
  have good: "\<exists>lay. candidate_layout ?lv m = Inr lay \<and>
                layout_respects lay img rnm cm (strict_direction self)"
    if "m \<in> set ?ms" for m
  proof -
    from that have "m \<in> set (vf2_mapping e cmg img (call_limit self))" unfolding ms .
    with sound have "is_embedding cmg img m" by blast
    from embedding_layout_respects [OF this ig cv] show ?thesis
      by (simp add: candidate_layout_def lv)
  qed
  have ne: "?ms \<noteq> []" using complete embeddable ms by simp
  have "\<forall>m \<in> set ?ms. \<exists>lay. candidate_layout ?lv m = Inr lay" using good by blast
  moreover have "chosen_layout search_init \<noteq> None \<longrightarrow> chosen_layout_score search_init \<noteq> None"
    by (simp add: search_init_def)
  ultimately obtain st where st: "search e ?self2 ?lv search_init ?ms = Inr st"
    using search_total by blast
  from ne obtain m rest where "?ms = m # rest" by (cases ?ms) auto
  with search_nonempty_found st obtain lay where
    lay: "chosen_layout st = Some lay" and sr: "stop_reason st = Some SOLUTION_FOUND"
    by (metis not_Some_eq)
  from search_chosen_from_stream [OF st] lay obtain m' where
    "m' \<in> set ?ms" "candidate_layout ?lv m' = Inr lay"
    by (auto simp: search_init_def)
  with good have resp: "layout_respects lay img rnm cm (strict_direction self)" by fastforce
  let ?L = "foldl (add_register e) lay (map snd (qregs dag))"
  have "run e self dag = search_phase e ?X cm dag (img, nm, rnm)"
    using run_search_phase [OF cm build] .
  also have "\<dots> = publish e ?self2 dag st"
    using st by (simp add: search_phase_def Let_def)
  also have "\<dots> = Inr (?self2\<lparr>property_set := (property_set ?self2)
            \<lparr>layout := Some ?L, VF2Layout_stop_reason := Some SOLUTION_FOUND\<rparr>\<rparr>)"
    using publish_found [OF lay sr] .
  finally have "run e self dag = Inr (?self2\<lparr>property_set := (property_set ?self2)
            \<lparr>layout := Some ?L, VF2Layout_stop_reason := Some SOLUTION_FOUND\<rparr>\<rparr>)" .
  moreover have "layout_respects ?L img rnm cm (strict_direction self)"
    using layout_respects_extended [OF resp reg] .
  ultimately show ?thesis by simp
qed


theorem embeddable_circuit_gets_valid_layout_witness:
  "shuffle_coupling_graph ex_env ex_line4 (seed ex_pass_strict) (strict_direction ex_pass_strict) =
     ex_view_strict \<and>
   vf2_mapping ex_env (fst ex_view_strict) (fst (ex_result True)) (call_limit ex_pass_strict) =
     [[(2, 0), (1, 1), (0, 2)], [(3, 0), (2, 1), (1, 2)]] \<and>
   run ex_env ex_pass_strict ex_dag =
     Inr (ex_pass_strict\<lparr>max_trials := Some 18, property_set := ex_found\<rparr>) \<and>
   (\<exists>self' L. run ex_env ex_pass_strict ex_dag = Inr self' \<and>
      VF2Layout_stop_reason (property_set self') = Some SOLUTION_FOUND \<and>
      layout (property_set self') = Some L \<and>
      layout_respects L (fst (ex_result True)) (snd (snd (ex_result True))) ex_line4 True)"
proof -
  let ?img = "\<lparr>is_directed = True, num_nodes = 3, edge_list = [(0, 1), (1, 2)]\<rparr>"
  let ?nm = "[0 \<mapsto> 0, 1 \<mapsto> 1, 2 \<mapsto> (2::nat)] :: nat \<rightharpoonup> nat"
  let ?cmg = "\<lparr>is_directed = True, num_nodes = 4, edge_list = [(3, 2), (2, 1), (1, 0)]\<rparr>"
  let ?cmn = "[3, 2, 1, 0] :: nat list"
  have sd: "strict_direction ex_pass_strict = True" "seed ex_pass_strict = Some 5"
    "call_limit ex_pass_strict = None"
    by (simp_all add: ex_pass_strict_def ex_pass_fields)
  have cm: "coupling_map ex_pass_strict = Some ex_line4"
    by (simp add: ex_pass_strict_def ex_pass_fields)
  have build: "build_interaction_graph ex_env ex_dag (strict_direction ex_pass_strict) =
               Some (?img, ?nm, ?nm)"
    using ex_build [of True] by (simp add: sd ex_result_def)
  have ig: "interaction_graph_ok (?img, ?nm, ?nm) (strict_direction ex_pass_strict)"
    unfolding sd by code_simp
  have shuffle: "shuffle_coupling_graph ex_env ex_line4 (seed ex_pass_strict)
                   (strict_direction ex_pass_strict) = (?cmg, ?cmn)"
    unfolding sd by code_simp
  have cv: "coupling_view_ok ex_line4 (strict_direction ex_pass_strict) (?cmg, ?cmn)"
    unfolding sd by code_simp
  have stream: "vf2_mapping ex_env ?cmg ?img (call_limit ex_pass_strict) =
                [[(2, 0), (1, 1), (0, 2)], [(3, 0), (2, 1), (1, 2)]]"
    unfolding sd by code_simp
  have emb: "is_embedding ?cmg ?img [(3, 0), (2, 1), (1, 2)]"
    by code_simp
  have emb2: "is_embedding ?cmg ?img [(2, 0), (1, 1), (0, 2)]"
    by code_simp
  have sound: "\<forall>m \<in> set (vf2_mapping ex_env ?cmg ?img (call_limit ex_pass_strict)).
                 is_embedding ?cmg ?img m"
    unfolding stream using emb emb2 by simp
  have complete: "(\<exists>m. is_embedding ?cmg ?img m) \<longrightarrow>
                  vf2_mapping ex_env ?cmg ?img (call_limit ex_pass_strict) \<noteq> []"
    unfolding stream by simp
  have embeddable: "\<exists>m. is_embedding ?cmg ?img m" using emb by blast
  have reg: "add_register_ok (add_register ex_env)"
    using add_register_spec_ok by (simp add: ex_env_def)
  have r: "run ex_env ex_pass_strict ex_dag =
     Inr (ex_pass_strict\<lparr>max_trials := Some 18, property_set := ex_found\<rparr>)"
    by code_simp
  from embeddable_circuit_gets_valid_layout
    [OF cm build ig shuffle cv sound complete embeddable reg] shuffle stream r
  show ?thesis by (simp add: sd ex_view_strict_def ex_result_def)
qed

end
